theory Spec2Isabelle
  imports Complex_Main
begin

section \<open>Three-dimensional vectors\<close>

text \<open>
  The sketch computes on \<^verbatim>\<open>THREE.Vector3\<close> objects holding JavaScript numbers.
  Numbers are modelled as mathematical reals: the development verifies the arithmetic the
  program writes down, not its rounding. The vector operations below follow the
  implementation of the three.js library the sketch imports: \<^verbatim>\<open>normalize\<close> is
  \<^verbatim>\<open>divideScalar(length() || 1)\<close>, \<^verbatim>\<open>divideScalar(s)\<close> is
  \<^verbatim>\<open>multiplyScalar(1 / s)\<close>, and \<^verbatim>\<open>clampLength(min, max)\<close> is
  \<^verbatim>\<open>divideScalar(length || 1).multiplyScalar(Math.max(min, Math.min(max, length)))\<close>.
  The JavaScript \<^verbatim>\<open>a || b\<close> on numbers yields \<^verbatim>\<open>b\<close> exactly when \<^verbatim>\<open>a\<close> is zero.
\<close>

datatype vec3 = Vector3 (vx: real) (vy: real) (vz: real)

definition zero3 :: vec3 where
  "zero3 = Vector3 0 0 0"

definition add :: "vec3 \<Rightarrow> vec3 \<Rightarrow> vec3" where
  "add a b = Vector3 (vx a + vx b) (vy a + vy b) (vz a + vz b)"

definition subVectors :: "vec3 \<Rightarrow> vec3 \<Rightarrow> vec3" where
  "subVectors a b = Vector3 (vx a - vx b) (vy a - vy b) (vz a - vz b)"

definition multiplyScalar :: "vec3 \<Rightarrow> real \<Rightarrow> vec3" where
  "multiplyScalar v s = Vector3 (vx v * s) (vy v * s) (vz v * s)"

definition divideScalar :: "vec3 \<Rightarrow> real \<Rightarrow> vec3" where
  "divideScalar v s = multiplyScalar v (1 / s)"

definition lengthSq :: "vec3 \<Rightarrow> real" where
  "lengthSq v = vx v * vx v + vy v * vy v + vz v * vz v"

definition length3 :: "vec3 \<Rightarrow> real" where
  "length3 v = sqrt (lengthSq v)"

definition or_one :: "real \<Rightarrow> real" where
  "or_one l = (if l = 0 then 1 else l)"

definition normalize3 :: "vec3 \<Rightarrow> vec3" where
  "normalize3 v = divideScalar v (or_one (length3 v))"

definition clampLength :: "vec3 \<Rightarrow> real \<Rightarrow> real \<Rightarrow> vec3" where
  "clampLength v mn mx =
     (let l = length3 v
      in multiplyScalar (divideScalar v (or_one l)) (max mn (min mx l)))"

definition distanceToSquared :: "vec3 \<Rightarrow> vec3 \<Rightarrow> real" where
  "distanceToSquared a b =
     (let dx = vx a - vx b; dy = vy a - vy b; dz = vz a - vz b
      in dx * dx + dy * dy + dz * dz)"

definition distanceTo :: "vec3 \<Rightarrow> vec3 \<Rightarrow> real" where
  "distanceTo a b = sqrt (distanceToSquared a b)"

definition lerp :: "vec3 \<Rightarrow> vec3 \<Rightarrow> real \<Rightarrow> vec3" where
  "lerp a b alpha =
     Vector3 (vx a + (vx b - vx a) * alpha)
             (vy a + (vy b - vy a) * alpha)
             (vz a + (vz b - vz a) * alpha)"


section \<open>Configuration\<close>

text \<open>The entries of \<^verbatim>\<open>CONFIG\<close> that the flocking engine reads, and \<^verbatim>\<open>SCATTER_DURATION\<close>.\<close>

definition maxSpeed :: real where "maxSpeed = 2"
definition maxForce :: real where "maxForce = 5 / 100"
definition separationRadius :: real where "separationRadius = 25"
definition alignmentRadius :: real where "alignmentRadius = 50"
definition cohesionRadius :: real where "cohesionRadius = 50"
definition separationWeight :: real where "separationWeight = 15 / 10"
definition alignmentWeight :: real where "alignmentWeight = 1"
definition cohesionWeight :: real where "cohesionWeight = 1"
definition mouseRepelRadius :: real where "mouseRepelRadius = 50"
definition mouseRepelStrength :: real where "mouseRepelStrength = 3"
definition boundarySize :: real where "boundarySize = 300"
definition homeAttractionStrength :: real where "homeAttractionStrength = 12 / 10"
definition SCATTER_DURATION :: nat where "SCATTER_DURATION = 180"


section \<open>Agents\<close>

text \<open>
  The kinematic fields of class \<^verbatim>\<open>Boid\<close>. The mesh and the colour fields are written
  by \<^verbatim>\<open>update\<close> and read by the renderer only; they never flow back into the fields
  below and are left out.
\<close>

record boid =
  homePosition :: vec3
  position :: vec3
  velocity :: vec3
  acceleration :: vec3
  isNearMouse :: bool

text \<open>
  The constructor draws a random direction \<open>r\<close> (each component in \<open>[-1, 1)\<close>), taken
  here as a parameter.
\<close>

definition new_Boid :: "vec3 \<Rightarrow> vec3 \<Rightarrow> boid" where
  "new_Boid homePos r =
     \<lparr> homePosition = homePos,
       position = homePos,
       velocity = multiplyScalar (normalize3 r) (maxSpeed * (1 / 2)),
       acceleration = zero3,
       isNearMouse = False \<rparr>"

definition applyForce :: "boid \<Rightarrow> vec3 \<Rightarrow> boid" where
  "applyForce b force = b\<lparr>acceleration := add (acceleration b) force\<rparr>"


section \<open>Steering\<close>

text \<open>
  A steering method runs on \<^verbatim>\<open>this\<close> and scans the global array \<^verbatim>\<open>boids\<close>. The
  array is a list, \<^verbatim>\<open>this\<close> is given together with its index \<open>i\<close> in the array, and the
  reference test \<^verbatim>\<open>other === this\<close> is the comparison of the loop index \<open>j\<close> with \<open>i\<close>.
  Each loop carries its two locals, the accumulated vector and \<^verbatim>\<open>count\<close>.
\<close>

fun separation_loop :: "boid \<Rightarrow> nat \<Rightarrow> nat \<Rightarrow> boid list \<Rightarrow> vec3 \<Rightarrow> nat \<Rightarrow> vec3 \<times> nat" where
  "separation_loop this i j [] steer count = (steer, count)"
| "separation_loop this i j (other # rest) steer count =
     (if j = i then separation_loop this i (Suc j) rest steer count
      else
        let d = distanceTo (position this) (position other)
        in if d > 0 \<and> d < separationRadius
           then
             let diff = subVectors (position this) (position other);
                 diff = normalize3 diff;
                 diff = divideScalar diff d
             in separation_loop this i (Suc j) rest (add steer diff) (Suc count)
           else separation_loop this i (Suc j) rest steer count)"

definition separation :: "boid \<Rightarrow> nat \<Rightarrow> boid list \<Rightarrow> vec3" where
  "separation this i boids =
     (case separation_loop this i 0 boids zero3 0 of
        (steer, count) \<Rightarrow>
          if count > 0
          then
            let steer = divideScalar steer (real count);
                steer = normalize3 steer;
                steer = multiplyScalar steer maxSpeed;
                steer = subVectors steer (velocity this)
            in clampLength steer 0 maxForce
          else steer)"

fun alignment_loop :: "boid \<Rightarrow> nat \<Rightarrow> nat \<Rightarrow> boid list \<Rightarrow> vec3 \<Rightarrow> nat \<Rightarrow> vec3 \<times> nat" where
  "alignment_loop this i j [] avgVelocity count = (avgVelocity, count)"
| "alignment_loop this i j (other # rest) avgVelocity count =
     (if j = i then alignment_loop this i (Suc j) rest avgVelocity count
      else
        let d = distanceTo (position this) (position other)
        in if d > 0 \<and> d < alignmentRadius
           then alignment_loop this i (Suc j) rest (add avgVelocity (velocity other)) (Suc count)
           else alignment_loop this i (Suc j) rest avgVelocity count)"

definition alignment :: "boid \<Rightarrow> nat \<Rightarrow> boid list \<Rightarrow> vec3" where
  "alignment this i boids =
     (case alignment_loop this i 0 boids zero3 0 of
        (avgVelocity, count) \<Rightarrow>
          if count > 0
          then
            let avgVelocity = divideScalar avgVelocity (real count);
                avgVelocity = normalize3 avgVelocity;
                avgVelocity = multiplyScalar avgVelocity maxSpeed;
                steer = subVectors avgVelocity (velocity this)
            in clampLength steer 0 maxForce
          else zero3)"

definition seek :: "boid \<Rightarrow> vec3 \<Rightarrow> vec3" where
  "seek this target =
     (let desired = subVectors target (position this);
          desired = normalize3 desired;
          desired = multiplyScalar desired maxSpeed;
          steer = subVectors desired (velocity this)
      in clampLength steer 0 maxForce)"

fun cohesion_loop :: "boid \<Rightarrow> nat \<Rightarrow> nat \<Rightarrow> boid list \<Rightarrow> vec3 \<Rightarrow> nat \<Rightarrow> vec3 \<times> nat" where
  "cohesion_loop this i j [] centerOfMass count = (centerOfMass, count)"
| "cohesion_loop this i j (other # rest) centerOfMass count =
     (if j = i then cohesion_loop this i (Suc j) rest centerOfMass count
      else
        let d = distanceTo (position this) (position other)
        in if d > 0 \<and> d < cohesionRadius
           then cohesion_loop this i (Suc j) rest (add centerOfMass (position other)) (Suc count)
           else cohesion_loop this i (Suc j) rest centerOfMass count)"

definition cohesion :: "boid \<Rightarrow> nat \<Rightarrow> boid list \<Rightarrow> vec3" where
  "cohesion this i boids =
     (case cohesion_loop this i 0 boids zero3 0 of
        (centerOfMass, count) \<Rightarrow>
          if count > 0
          then seek this (divideScalar centerOfMass (real count))
          else zero3)"

definition seekHome :: "boid \<Rightarrow> vec3" where
  "seekHome this = multiplyScalar (seek this (homePosition this)) homeAttractionStrength"

text \<open>\<^verbatim>\<open>mouseRepel\<close> returns the force and writes \<^verbatim>\<open>this.isNearMouse\<close>: it returns both.\<close>

definition mouseRepel :: "boid \<Rightarrow> vec3 \<Rightarrow> vec3 \<times> boid" where
  "mouseRepel this mousePosition =
     (let d = distanceTo (position this) mousePosition
      in if d < mouseRepelRadius \<and> d > 0
         then
           let this = this\<lparr>isNearMouse := True\<rparr>;
               flee = subVectors (position this) mousePosition;
               flee = normalize3 flee;
               strength = mouseRepelStrength * (1 - d / mouseRepelRadius);
               flee = multiplyScalar flee strength;
               flee = clampLength flee 0 (maxForce * 4)
           in (flee, this)
         else (zero3, this))"


section \<open>The per-agent frame steps\<close>

definition flock :: "boid \<Rightarrow> nat \<Rightarrow> boid list \<Rightarrow> vec3 \<Rightarrow> bool \<Rightarrow> bool \<Rightarrow> boid" where
  "flock this i boids mousePosition isMouseActive scattered =
     (let sep = multiplyScalar (separation this i boids) separationWeight;
          ali = multiplyScalar (alignment this i boids) alignmentWeight;
          coh = multiplyScalar (cohesion this i boids) cohesionWeight;
          this =
            (if scattered
             then applyForce (applyForce (applyForce this sep) ali) coh
             else
               let this = this\<lparr>velocity := Vector3 0 0 0\<rparr>
               in this\<lparr>position := lerp (position this) (homePosition this) (1 / 10)\<rparr>)
      in if isMouseActive
         then
           (case mouseRepel this mousePosition of
              (mouseForce, this) \<Rightarrow> applyForce this mouseForce)
         else this)"

definition wrapEdges :: "vec3 \<Rightarrow> vec3" where
  "wrapEdges p =
     (let bound = boundarySize;
          px = vx p; py = vy p; pz = vz p;
          px = (if px > bound then - bound else px);
          px = (if px < - bound then bound else px);
          py = (if py > bound then - bound else py);
          py = (if py < - bound then bound else py);
          pz = (if pz > bound then - bound else pz);
          pz = (if pz < - bound then bound else pz)
      in Vector3 px py pz)"

definition update :: "boid \<Rightarrow> bool \<Rightarrow> boid" where
  "update this scattered =
     (let this = this\<lparr>velocity := add (velocity this) (acceleration this)\<rparr>;
          this = this\<lparr>velocity := clampLength (velocity this) 0 maxSpeed\<rparr>;
          this =
            (if \<not> scattered
             then
               let distToHome = distanceTo (position this) (homePosition this)
               in if distToHome < 20
                  then this\<lparr>velocity := multiplyScalar (velocity this) (85 / 100)\<rparr>
                  else if distToHome < 50
                  then this\<lparr>velocity := multiplyScalar (velocity this) (95 / 100)\<rparr>
                  else this
             else this);
          this = this\<lparr>position := add (position this) (velocity this)\<rparr>;
          this = this\<lparr>position := wrapEdges (position this)\<rparr>;
          this = this\<lparr>acceleration := Vector3 0 0 0\<rparr>
      in this\<lparr>isNearMouse := False\<rparr>)"


section \<open>The animation loop\<close>

text \<open>
  The globals \<^verbatim>\<open>boids\<close>, \<^verbatim>\<open>isScattered\<close> and \<^verbatim>\<open>scatterTimer\<close> form the state; the
  pointer globals \<^verbatim>\<open>mousePos\<close> and \<^verbatim>\<open>mouseActive\<close> are written by event handlers
  between frames and are the input of a frame.
\<close>

record swarm =
  boids :: "boid list"
  isScattered :: bool
  scatterTimer :: nat

record pointer =
  mousePos :: vec3
  mouseActive :: bool

text \<open>The collision scan, with its \<^verbatim>\<open>break\<close> at the first hit.\<close>

fun collision_scan :: "boid list \<Rightarrow> vec3 \<Rightarrow> bool \<times> nat \<Rightarrow> bool \<times> nat" where
  "collision_scan [] mp m = m"
| "collision_scan (b # rest) mp m =
     (if distanceTo (position b) mp < 30
      then (True, SCATTER_DURATION)
      else collision_scan rest mp m)"

definition check_collision :: "pointer \<Rightarrow> boid list \<Rightarrow> bool \<times> nat \<Rightarrow> bool \<times> nat" where
  "check_collision inp bs m =
     (if mouseActive inp then collision_scan bs (mousePos inp) m else m)"

definition manage_timer :: "bool \<times> nat \<Rightarrow> bool \<times> nat" where
  "manage_timer m =
     (case m of (sc, t) \<Rightarrow> if t > 0 then (sc, t - 1) else (False, t))"

text \<open>
  The first loop calls \<^verbatim>\<open>boid.flock(boids, ...)\<close> on each element in turn; each call
  reads the array as the calls before it left it.
\<close>

definition flock_at :: "vec3 \<Rightarrow> bool \<Rightarrow> bool \<Rightarrow> boid list \<Rightarrow> nat \<Rightarrow> boid list" where
  "flock_at mp ma sc bs i = bs[i := flock (bs ! i) i bs mp ma sc]"

definition flock_pass :: "vec3 \<Rightarrow> bool \<Rightarrow> bool \<Rightarrow> boid list \<Rightarrow> boid list" where
  "flock_pass mp ma sc bs = foldl (flock_at mp ma sc) bs [0 ..< length bs]"

definition update_pass :: "bool \<Rightarrow> boid list \<Rightarrow> boid list" where
  "update_pass sc bs = map (\<lambda>b. update b sc) bs"

definition animate :: "pointer \<Rightarrow> swarm \<Rightarrow> swarm" where
  "animate inp s =
     (case manage_timer (check_collision inp (boids s) (isScattered s, scatterTimer s)) of
        (sc, t) \<Rightarrow>
          \<lparr> boids = update_pass sc (flock_pass (mousePos inp) (mouseActive inp) sc (boids s)),
            isScattered = sc,
            scatterTimer = t \<rparr>)"

fun frames :: "pointer list \<Rightarrow> swarm \<Rightarrow> swarm" where
  "frames [] s = s"
| "frames (inp # inps) s = frames inps (animate inp s)"


text \<open>
  \<^verbatim>\<open>init\<close> pushes one agent per text position; \<open>rs\<close> are the random directions the
  constructors draw. Both mode globals start at their declared values.
\<close>

definition init :: "vec3 list \<Rightarrow> vec3 list \<Rightarrow> swarm" where
  "init textPositions rs =
     \<lparr> boids = map (\<lambda>(homePos, r). new_Boid homePos r) (zip textPositions rs),
       isScattered = False,
       scatterTimer = 0 \<rparr>"


section \<open>Predicates used in the statements\<close>

text \<open>The scatter trigger of a frame: the pointer is active and some agent is within 30 of it.\<close>

definition triggers :: "pointer \<Rightarrow> boid list \<Rightarrow> bool" where
  "triggers inp bs \<longleftrightarrow>
     mouseActive inp \<and> list_ex (\<lambda>b. distanceTo (position b) (mousePos inp) < 30) bs"

text \<open>A run of frames none of which triggers.\<close>

fun quiet_run :: "pointer list \<Rightarrow> swarm \<Rightarrow> bool" where
  "quiet_run [] s = True"
| "quiet_run (inp # inps) s = (\<not> triggers inp (boids s) \<and> quiet_run inps (animate inp s))"

text \<open>The neighbour test that the loop of each flocking method makes, and its absence over the array.\<close>

definition neighbour :: "boid \<Rightarrow> real \<Rightarrow> boid \<Rightarrow> bool" where
  "neighbour this radius other \<longleftrightarrow>
     (let d = distanceTo (position this) (position other) in d > 0 \<and> d < radius)"

definition isolated :: "boid \<Rightarrow> nat \<Rightarrow> boid list \<Rightarrow> real \<Rightarrow> bool" where
  "isolated this i bs radius \<longleftrightarrow>
     list_all (\<lambda>(j, other). j = i \<or> \<not> neighbour this radius other) (enumerate 0 bs)"

text \<open>A point inside the wrap boundary, and an agent's distance to its home.\<close>

definition in_box :: "vec3 \<Rightarrow> bool" where
  "in_box p \<longleftrightarrow>
     \<bar>vx p\<bar> \<le> boundarySize \<and> \<bar>vy p\<bar> \<le> boundarySize \<and> \<bar>vz p\<bar> \<le> boundarySize"

definition homeDistance :: "boid \<Rightarrow> real" where
  "homeDistance b = distanceTo (position b) (homePosition b)"

text \<open>
  Agent \<open>i\<close> of a swarm in Formed mode, inside the boundary with its home, and with the
  zero acceleration every agent has at a frame boundary.
\<close>

definition settling :: "swarm \<Rightarrow> nat \<Rightarrow> bool" where
  "settling s i \<longleftrightarrow>
     \<not> isScattered s \<and> i < length (boids s) \<and>
     in_box (position (boids s ! i)) \<and> in_box (homePosition (boids s ! i)) \<and>
     acceleration (boids s ! i) = zero3"


section \<open>The steering methods on an object store\<close>

text \<open>
  In the program every vector is an object: a method such as \<^verbatim>\<open>steer.add(diff)\<close>
  overwrites its receiver, and an agent holds references to its four vectors. To decide
  what a steering method may overwrite, the methods are modelled a second time on an
  explicit store. \<open>vectors\<close> holds the \<^verbatim>\<open>Vector3\<close> objects, addressed by index, and
  \<^verbatim>\<open>new THREE.Vector3()\<close> appends a zero vector; \<open>objects\<close> is the array \<^verbatim>\<open>boids\<close>,
  each agent holding the addresses of its vectors and its flag.
\<close>

record boid_obj =
  homePosition_at :: nat
  position_at :: nat
  velocity_at :: nat
  acceleration_at :: nat
  isNearMouse_flag :: bool

record mem =
  vectors :: "vec3 list"
  objects :: "boid_obj list"

definition load :: "mem \<Rightarrow> nat \<Rightarrow> vec3" where
  "load m a = vectors m ! a"

definition store :: "nat \<Rightarrow> vec3 \<Rightarrow> mem \<Rightarrow> mem" where
  "store a v m = m\<lparr>vectors := (vectors m)[a := v]\<rparr>"

definition new_Vector3 :: "mem \<Rightarrow> nat \<times> mem" where
  "new_Vector3 m = (length (vectors m), m\<lparr>vectors := vectors m @ [Vector3 0 0 0]\<rparr>)"

fun separation_loop_m :: "nat \<Rightarrow> nat \<Rightarrow> nat list \<Rightarrow> nat \<Rightarrow> mem \<Rightarrow> nat \<times> mem" where
  "separation_loop_m i steer [] count m = (count, m)"
| "separation_loop_m i steer (j # js) count m =
     (if j = i then separation_loop_m i steer js count m
      else
        let this = objects m ! i; other = objects m ! j;
            d = distanceTo (load m (position_at this)) (load m (position_at other))
        in if d > 0 \<and> d < separationRadius
           then
             (case new_Vector3 m of
                (diff, m) \<Rightarrow>
                  let m = store diff
                            (subVectors (load m (position_at this)) (load m (position_at other))) m;
                      m = store diff (normalize3 (load m diff)) m;
                      m = store diff (divideScalar (load m diff) d) m;
                      m = store steer (add (load m steer) (load m diff)) m
                  in separation_loop_m i steer js (Suc count) m)
           else separation_loop_m i steer js count m)"

definition separation_m :: "nat \<Rightarrow> mem \<Rightarrow> nat \<times> mem" where
  "separation_m i m =
     (case new_Vector3 m of
        (steer, m) \<Rightarrow>
          (case separation_loop_m i steer [0 ..< length (objects m)] 0 m of
             (count, m) \<Rightarrow>
               if count > 0
               then
                 let m = store steer (divideScalar (load m steer) (real count)) m;
                     m = store steer (normalize3 (load m steer)) m;
                     m = store steer (multiplyScalar (load m steer) maxSpeed) m;
                     m = store steer
                           (subVectors (load m steer) (load m (velocity_at (objects m ! i)))) m;
                     m = store steer (clampLength (load m steer) 0 maxForce) m
                 in (steer, m)
               else (steer, m)))"

fun alignment_loop_m :: "nat \<Rightarrow> nat \<Rightarrow> nat list \<Rightarrow> nat \<Rightarrow> mem \<Rightarrow> nat \<times> mem" where
  "alignment_loop_m i avgVelocity [] count m = (count, m)"
| "alignment_loop_m i avgVelocity (j # js) count m =
     (if j = i then alignment_loop_m i avgVelocity js count m
      else
        let this = objects m ! i; other = objects m ! j;
            d = distanceTo (load m (position_at this)) (load m (position_at other))
        in if d > 0 \<and> d < alignmentRadius
           then
             let m = store avgVelocity
                       (add (load m avgVelocity) (load m (velocity_at other))) m
             in alignment_loop_m i avgVelocity js (Suc count) m
           else alignment_loop_m i avgVelocity js count m)"

definition alignment_m :: "nat \<Rightarrow> mem \<Rightarrow> nat \<times> mem" where
  "alignment_m i m =
     (case new_Vector3 m of
        (avgVelocity, m) \<Rightarrow>
          (case alignment_loop_m i avgVelocity [0 ..< length (objects m)] 0 m of
             (count, m) \<Rightarrow>
               if count > 0
               then
                 let m = store avgVelocity (divideScalar (load m avgVelocity) (real count)) m;
                     m = store avgVelocity (normalize3 (load m avgVelocity)) m;
                     m = store avgVelocity (multiplyScalar (load m avgVelocity) maxSpeed) m
                 in (case new_Vector3 m of
                       (steer, m) \<Rightarrow>
                         let m = store steer
                                   (subVectors (load m avgVelocity)
                                      (load m (velocity_at (objects m ! i)))) m;
                             m = store steer (clampLength (load m steer) 0 maxForce) m
                         in (steer, m))
               else new_Vector3 m))"

definition seek_m :: "nat \<Rightarrow> nat \<Rightarrow> mem \<Rightarrow> nat \<times> mem" where
  "seek_m i target m =
     (case new_Vector3 m of
        (desired, m) \<Rightarrow>
          let m = store desired
                    (subVectors (load m target) (load m (position_at (objects m ! i)))) m;
              m = store desired (normalize3 (load m desired)) m;
              m = store desired (multiplyScalar (load m desired) maxSpeed) m
          in (case new_Vector3 m of
                (steer, m) \<Rightarrow>
                  let m = store steer
                            (subVectors (load m desired)
                               (load m (velocity_at (objects m ! i)))) m;
                      m = store steer (clampLength (load m steer) 0 maxForce) m
                  in (steer, m)))"

fun cohesion_loop_m :: "nat \<Rightarrow> nat \<Rightarrow> nat list \<Rightarrow> nat \<Rightarrow> mem \<Rightarrow> nat \<times> mem" where
  "cohesion_loop_m i centerOfMass [] count m = (count, m)"
| "cohesion_loop_m i centerOfMass (j # js) count m =
     (if j = i then cohesion_loop_m i centerOfMass js count m
      else
        let this = objects m ! i; other = objects m ! j;
            d = distanceTo (load m (position_at this)) (load m (position_at other))
        in if d > 0 \<and> d < cohesionRadius
           then
             let m = store centerOfMass
                       (add (load m centerOfMass) (load m (position_at other))) m
             in cohesion_loop_m i centerOfMass js (Suc count) m
           else cohesion_loop_m i centerOfMass js count m)"

definition cohesion_m :: "nat \<Rightarrow> mem \<Rightarrow> nat \<times> mem" where
  "cohesion_m i m =
     (case new_Vector3 m of
        (centerOfMass, m) \<Rightarrow>
          (case cohesion_loop_m i centerOfMass [0 ..< length (objects m)] 0 m of
             (count, m) \<Rightarrow>
               if count > 0
               then
                 let m = store centerOfMass (divideScalar (load m centerOfMass) (real count)) m
                 in seek_m i centerOfMass m
               else new_Vector3 m))"

definition seekHome_m :: "nat \<Rightarrow> mem \<Rightarrow> nat \<times> mem" where
  "seekHome_m i m =
     (case seek_m i (homePosition_at (objects m ! i)) m of
        (steer, m) \<Rightarrow>
          (steer, store steer (multiplyScalar (load m steer) homeAttractionStrength) m))"

definition mouseRepel_m :: "nat \<Rightarrow> nat \<Rightarrow> mem \<Rightarrow> nat \<times> mem" where
  "mouseRepel_m i mousePosition m =
     (let this = objects m ! i;
          d = distanceTo (load m (position_at this)) (load m mousePosition)
      in if d < mouseRepelRadius \<and> d > 0
         then
           let m = m\<lparr>objects := (objects m)[i := this\<lparr>isNearMouse_flag := True\<rparr>]\<rparr>
           in (case new_Vector3 m of
                 (flee, m) \<Rightarrow>
                   let m = store flee
                             (subVectors (load m (position_at this)) (load m mousePosition)) m;
                       m = store flee (normalize3 (load m flee)) m;
                       strength = mouseRepelStrength * (1 - d / mouseRepelRadius);
                       m = store flee (multiplyScalar (load m flee) strength) m;
                       m = store flee (clampLength (load m flee) 0 (maxForce * 4)) m
                   in (flee, m))
         else new_Vector3 m)"

text \<open>
  The agents a store holds, read through their references, and the stores in which every
  reference of every agent points to an allocated vector.
\<close>

definition boid_of :: "mem \<Rightarrow> boid_obj \<Rightarrow> boid" where
  "boid_of m b =
     \<lparr> homePosition = load m (homePosition_at b),
       position = load m (position_at b),
       velocity = load m (velocity_at b),
       acceleration = load m (acceleration_at b),
       isNearMouse = isNearMouse_flag b \<rparr>"

definition swarm_of :: "mem \<Rightarrow> boid list" where
  "swarm_of m = map (boid_of m) (objects m)"

definition allocated :: "mem \<Rightarrow> bool" where
  "allocated m \<longleftrightarrow>
     list_all (\<lambda>b. homePosition_at b < length (vectors m) \<and> position_at b < length (vectors m) \<and>
                   velocity_at b < length (vectors m) \<and> acceleration_at b < length (vectors m))
       (objects m)"

text \<open>
  A store extends another beyond \<open>n\<close> when it holds the same agents, the same first \<open>n\<close>
  vectors, and no fewer vectors: whatever was written went to addresses from \<open>n\<close> on.
\<close>

definition extends :: "nat \<Rightarrow> mem \<Rightarrow> mem \<Rightarrow> bool" where
  "extends n m m' \<longleftrightarrow>
     objects m' = objects m \<and> take n (vectors m') = take n (vectors m) \<and>
     length (vectors m) \<le> length (vectors m')"


section \<open>Lengths of vectors\<close>

text \<open>
  How \<open>length3\<close> behaves under the operations the steering code chains: scaling,
  normalizing and clamping. The clamp to \<open>[0, mx]\<close> yields the minimum of \<open>mx\<close> and the
  old length, from which the speed bound of \<^verbatim>\<open>update\<close> follows.
\<close>

lemma length3_nonneg: "0 \<le> length3 v"
  by (simp add: length3_def lengthSq_def)

lemma lengthSq_multiplyScalar: "lengthSq (multiplyScalar v s) = s * s * lengthSq v"
  by (simp add: lengthSq_def multiplyScalar_def algebra_simps)

lemma length3_multiplyScalar: "length3 (multiplyScalar v s) = \<bar>s\<bar> * length3 v"
  by (simp add: length3_def lengthSq_multiplyScalar real_sqrt_mult flip: power2_eq_square)

lemma length3_divideScalar: "length3 (divideScalar v s) = length3 v / \<bar>s\<bar>"
  by (simp add: divideScalar_def length3_multiplyScalar)

lemma length3_zero3: "length3 zero3 = 0"
  by (simp add: length3_def lengthSq_def zero3_def)

lemma length3_normalize3: "length3 (normalize3 v) = (if length3 v = 0 then 0 else 1)"
  using length3_nonneg [of v]
  by (simp add: normalize3_def or_one_def length3_divideScalar)

lemma length3_clampLength:
  "0 \<le> mx \<Longrightarrow> length3 (clampLength v 0 mx) = min mx (length3 v)"
  using length3_nonneg [of v]
  by (auto simp add: clampLength_def Let_def or_one_def length3_divideScalar length3_multiplyScalar)

lemma lengthSq_eq_0_iff: "lengthSq v = 0 \<longleftrightarrow> v = zero3"
proof (cases v)
  case (Vector3 a b c)
  have "a * a + b * b + c * c = 0 \<longleftrightarrow> a = 0 \<and> b = 0 \<and> c = 0"
    using sum_power2_eq_zero_iff [of a b] sum_power2_eq_zero_iff [of "sqrt (a\<^sup>2 + b\<^sup>2)" c]
    by (auto simp add: power2_eq_square)
  then show ?thesis
    using Vector3 by (simp add: lengthSq_def zero3_def)
qed

lemma length3_eq_0_iff: "length3 v = 0 \<longleftrightarrow> v = zero3"
  by (simp add: length3_def lengthSq_eq_0_iff)

lemma distanceTo_subVectors: "distanceTo a b = length3 (subVectors a b)"
  by (simp add: distanceTo_def distanceToSquared_def length3_def lengthSq_def subVectors_def Let_def)

lemma velocity_update_bound: "length3 (velocity (update b sc)) \<le> maxSpeed"
proof -
  let ?v = "clampLength (add (velocity b) (acceleration b)) 0 maxSpeed"
  have c: "length3 ?v \<le> maxSpeed"
    by (simp add: length3_clampLength maxSpeed_def)
  have n: "0 \<le> length3 ?v" by (rule length3_nonneg)
  have d1: "length3 (multiplyScalar ?v (85 / 100)) \<le> maxSpeed"
    using c n by (simp add: length3_multiplyScalar)
  have d2: "length3 (multiplyScalar ?v (95 / 100)) \<le> maxSpeed"
    using c n by (simp add: length3_multiplyScalar)
  show ?thesis
    using c d1 d2 by (simp add: update_def Let_def)
qed


section \<open>The mode controller\<close>

text \<open>
  The collision scan with its \<^verbatim>\<open>break\<close> is a search for an agent closer than 30 to
  the pointer. A frame either triggers, and then leaves the mode Scattered with the timer
  one below \<^verbatim>\<open>SCATTER_DURATION\<close>, or counts the timer down and drops to Formed once it has
  run out.
\<close>

lemma collision_scan_eq:
  "collision_scan bs mp m =
     (if list_ex (\<lambda>b. distanceTo (position b) mp < 30) bs then (True, SCATTER_DURATION) else m)"
  by (induction bs) auto

lemma check_collision_eq:
  "check_collision inp bs m = (if triggers inp bs then (True, SCATTER_DURATION) else m)"
  by (simp add: check_collision_def triggers_def collision_scan_eq)

lemma mode_animate:
  "(isScattered (animate inp s), scatterTimer (animate inp s)) =
     manage_timer (check_collision inp (boids s) (isScattered s, scatterTimer s))"
  by (simp add: animate_def split: prod.splits)

lemma animate_trigger:
  "triggers inp (boids s) \<Longrightarrow>
     isScattered (animate inp s) \<and> scatterTimer (animate inp s) = SCATTER_DURATION - 1"
  using mode_animate [of inp s]
  by (simp add: check_collision_eq manage_timer_def SCATTER_DURATION_def)

lemma animate_quiet:
  "\<not> triggers inp (boids s) \<Longrightarrow>
     isScattered (animate inp s) = (isScattered s \<and> 0 < scatterTimer s) \<and>
     scatterTimer (animate inp s) = scatterTimer s - 1"
  using mode_animate [of inp s]
  by (auto simp add: check_collision_eq manage_timer_def split: if_splits)

lemma frames_quiet:
  "quiet_run inps s \<Longrightarrow> isScattered s \<Longrightarrow>
     isScattered (frames inps s) = (length inps \<le> scatterTimer s) \<and>
     scatterTimer (frames inps s) = scatterTimer s - length inps"
proof (induction inps arbitrary: s)
  case Nil
  then show ?case by simp
next
  case (Cons inp inps)
  from Cons.prems have q: "\<not> triggers inp (boids s)" and r: "quiet_run inps (animate inp s)"
    by simp_all
  show ?case
  proof (cases "0 < scatterTimer s")
    case True
    with q Cons.prems have "isScattered (animate inp s)"
      by (simp add: animate_quiet)
    from Cons.IH [OF r this] True q show ?thesis
      by (auto simp add: animate_quiet)
  next
    case False
    have stay: "quiet_run qs t \<Longrightarrow> \<not> isScattered t \<Longrightarrow> \<not> isScattered (frames qs t) \<and> scatterTimer (frames qs t) = scatterTimer t - length qs" for qs t
      by (induction qs arbitrary: t) (auto simp add: animate_quiet)
    from False q have "\<not> isScattered (animate inp s)" "scatterTimer (animate inp s) = 0"
      by (simp_all add: animate_quiet)
    with stay [OF r] False show ?thesis by simp
  qed
qed


section \<open>The flock step in closed form\<close>

text \<open>
  \<^verbatim>\<open>flock\<close> as one record update per mode, with the calls of \<^verbatim>\<open>applyForce\<close> summed.
\<close>

lemma add_zero3_right: "add v zero3 = v"
  by (cases v) (simp add: add_def zero3_def)

lemma add_assoc3: "add (add a b) c = add a (add b c)"
  by (simp add: add_def)

lemma mouseRepel_snd_fields:
  "position (snd (mouseRepel this mp)) = position this"
  "velocity (snd (mouseRepel this mp)) = velocity this"
  "acceleration (snd (mouseRepel this mp)) = acceleration this"
  "homePosition (snd (mouseRepel this mp)) = homePosition this"
  by (simp_all add: mouseRepel_def Let_def)

lemma flock_scattered:
  "flock this i bs mp ma True =
     (let sep = multiplyScalar (separation this i bs) separationWeight;
          ali = multiplyScalar (alignment this i bs) alignmentWeight;
          coh = multiplyScalar (cohesion this i bs) cohesionWeight;
          mouseForce = (if ma then fst (mouseRepel this mp) else zero3)
      in this\<lparr>acceleration := add (acceleration this) (add (add (add sep ali) coh) mouseForce),
               isNearMouse := (if ma then isNearMouse (snd (mouseRepel this mp)) else isNearMouse this)\<rparr>)"
  by (simp add: flock_def Let_def applyForce_def mouseRepel_def add_assoc3 add_zero3_right
      split: prod.splits)

lemma flock_formed:
  "flock this i bs mp ma False =
     (let moved = this\<lparr>velocity := Vector3 0 0 0,
                        position := lerp (position this) (homePosition this) (1 / 10)\<rparr>;
          mouseForce = (if ma then fst (mouseRepel moved mp) else zero3)
      in moved\<lparr>acceleration := add (acceleration this) mouseForce,
                isNearMouse := (if ma then isNearMouse (snd (mouseRepel moved mp)) else isNearMouse this)\<rparr>)"
  by (simp add: flock_def Let_def applyForce_def mouseRepel_def add_zero3_right
      split: prod.splits)


section \<open>The flock pass\<close>

text \<open>
  A steering loop reads nothing of the other agents but their positions and velocities,
  and \<^verbatim>\<open>flock\<close> in Scattered mode writes neither; in Formed mode its result does not
  depend on the array at all. In both modes the pass over the live array is therefore the
  map of \<^verbatim>\<open>flock\<close> over the array as it was at the start.
\<close>

lemma separation_loop_cong:
  "map position bs = map position bs' \<Longrightarrow>
     separation_loop this i j bs steer count = separation_loop this i j bs' steer count"
proof (induction bs arbitrary: bs' j steer count)
  case Nil
  then show ?case by simp
next
  case (Cons b bs)
  then obtain b' rest where bs': "bs' = b' # rest" by (cases bs') auto
  with Cons.prems have "position b = position b'" "map position bs = map position rest"
    by simp_all
  with Cons.IH [of rest] show ?case
    by (simp add: bs' Let_def)
qed

lemma cohesion_loop_cong:
  "map position bs = map position bs' \<Longrightarrow>
     cohesion_loop this i j bs c count = cohesion_loop this i j bs' c count"
proof (induction bs arbitrary: bs' j c count)
  case Nil
  then show ?case by simp
next
  case (Cons b bs)
  then obtain b' rest where bs': "bs' = b' # rest" by (cases bs') auto
  with Cons.prems have "position b = position b'" "map position bs = map position rest"
    by simp_all
  with Cons.IH [of rest] show ?case
    by (simp add: bs' Let_def)
qed

lemma alignment_loop_cong:
  "map position bs = map position bs' \<Longrightarrow> map velocity bs = map velocity bs' \<Longrightarrow>
     alignment_loop this i j bs a count = alignment_loop this i j bs' a count"
proof (induction bs arbitrary: bs' j a count)
  case Nil
  then show ?case by simp
next
  case (Cons b bs)
  then obtain b' rest where bs': "bs' = b' # rest" by (cases bs') auto
  with Cons.prems have "position b = position b'" "map position bs = map position rest"
    "velocity b = velocity b'" "map velocity bs = map velocity rest"
    by simp_all
  with Cons.IH [of rest] show ?case
    by (simp add: bs' Let_def)
qed

lemma flock_cong:
  "map position bs = map position bs' \<Longrightarrow> map velocity bs = map velocity bs' \<Longrightarrow>
     flock this i bs mp ma sc = flock this i bs' mp ma sc"
  by (simp add: flock_def separation_def alignment_def cohesion_def
      separation_loop_cong [of bs bs'] cohesion_loop_cong [of bs bs']
      alignment_loop_cong [of bs bs'])

lemma flock_scattered_fields:
  "position (flock this i bs mp ma True) = position this"
  "velocity (flock this i bs mp ma True) = velocity this"
  "homePosition (flock this i bs mp ma True) = homePosition this"
  by (simp_all add: flock_scattered Let_def)

lemma flock_formed_indep:
  "flock this i bs mp ma False = flock this i' bs' mp ma False"
  by (simp add: flock_formed)

text \<open>The state of the array after the first n calls of the flock loop.\<close>

lemma length_flock_prefix:
  "length (foldl (flock_at mp ma sc) bs [0 ..< n]) = length bs"
  by (induction n) (simp_all add: flock_at_def)

lemma flock_prefix_scattered:
  "n \<le> length bs \<Longrightarrow>
     foldl (flock_at mp ma True) bs [0 ..< n] =
       map (\<lambda>j. if j < n then flock (bs ! j) j bs mp ma True else bs ! j) [0 ..< length bs]"
proof (induction n)
  case 0
  then show ?case by (simp add: map_nth)
next
  case (Suc n)
  let ?r = "foldl (flock_at mp ma True) bs [0 ..< n]"
  from Suc have r: "?r = map (\<lambda>j. if j < n then flock (bs ! j) j bs mp ma True else bs ! j) [0 ..< length bs]"
    and n: "n < length bs" by simp_all
  have pos: "map position ?r = map position bs"
    by (subst r, rule nth_equalityI) (simp_all add: flock_scattered_fields)
  have vel: "map velocity ?r = map velocity bs"
    by (subst r, rule nth_equalityI) (simp_all add: flock_scattered_fields)
  have rn: "?r ! n = bs ! n"
    using n by (subst r) simp
  have "foldl (flock_at mp ma True) bs [0 ..< Suc n] = flock_at mp ma True ?r n"
    by simp
  also have "\<dots> = ?r[n := flock (bs ! n) n ?r mp ma True]"
    unfolding flock_at_def rn ..
  also have "\<dots> = ?r[n := flock (bs ! n) n bs mp ma True]"
    unfolding flock_cong [OF pos vel] ..
  also have "\<dots> = map (\<lambda>j. if j < Suc n then flock (bs ! j) j bs mp ma True else bs ! j) [0 ..< length bs]"
    using n by (subst r, intro nth_equalityI) (auto simp add: nth_list_update less_Suc_eq)
  finally show ?case .
qed

lemma flock_pass_scattered:
  "flock_pass mp ma True bs = map (\<lambda>j. flock (bs ! j) j bs mp ma True) [0 ..< length bs]"
  by (simp add: flock_pass_def flock_prefix_scattered)

lemma flock_prefix_formed:
  "n \<le> length bs \<Longrightarrow>
     foldl (flock_at mp ma False) bs [0 ..< n] =
       map (\<lambda>j. if j < n then flock (bs ! j) j bs mp ma False else bs ! j) [0 ..< length bs]"
proof (induction n)
  case 0
  then show ?case by (simp add: map_nth)
next
  case (Suc n)
  let ?r = "foldl (flock_at mp ma False) bs [0 ..< n]"
  from Suc have r: "?r = map (\<lambda>j. if j < n then flock (bs ! j) j bs mp ma False else bs ! j) [0 ..< length bs]"
    and n: "n < length bs" by simp_all
  have rn: "?r ! n = bs ! n"
    using n by (subst r) simp
  have "foldl (flock_at mp ma False) bs [0 ..< Suc n] = flock_at mp ma False ?r n"
    by simp
  also have "\<dots> = ?r[n := flock (bs ! n) n ?r mp ma False]"
    unfolding flock_at_def rn ..
  also have "\<dots> = ?r[n := flock (bs ! n) n bs mp ma False]"
    unfolding flock_formed_indep [of "bs ! n" n ?r mp ma n bs] ..
  also have "\<dots> = map (\<lambda>j. if j < Suc n then flock (bs ! j) j bs mp ma False else bs ! j) [0 ..< length bs]"
    using n by (subst r, intro nth_equalityI) (auto simp add: nth_list_update less_Suc_eq)
  finally show ?case .
qed

lemma flock_pass_formed:
  "flock_pass mp ma False bs = map (\<lambda>j. flock (bs ! j) j bs mp ma False) [0 ..< length bs]"
  by (simp add: flock_pass_def flock_prefix_formed)


section \<open>The neighbour loop and the force bounds\<close>

text \<open>
  A loop that meets no neighbour returns its accumulator and count as they were, and a
  loop that returns the count it started with has not touched the accumulator. Every
  steering vector is either the zero vector or the result of a clamp to \<^verbatim>\<open>maxForce\<close>.
\<close>

lemma separation_loop_isolated:
  "list_all (\<lambda>(k, other). k = i \<or> \<not> neighbour this separationRadius other) (enumerate j bs) \<Longrightarrow>
     separation_loop this i j bs steer count = (steer, count)"
  by (induction bs arbitrary: j) (auto simp add: neighbour_def Let_def)

lemma alignment_loop_isolated:
  "list_all (\<lambda>(k, other). k = i \<or> \<not> neighbour this alignmentRadius other) (enumerate j bs) \<Longrightarrow>
     alignment_loop this i j bs a count = (a, count)"
  by (induction bs arbitrary: j) (auto simp add: neighbour_def Let_def)

lemma cohesion_loop_isolated:
  "list_all (\<lambda>(k, other). k = i \<or> \<not> neighbour this cohesionRadius other) (enumerate j bs) \<Longrightarrow>
     cohesion_loop this i j bs c count = (c, count)"
  by (induction bs arbitrary: j) (auto simp add: neighbour_def Let_def)

lemma separation_loop_count:
  "separation_loop this i j bs steer count = (s', c') \<Longrightarrow> (c' = count \<and> s' = steer) \<or> count < c'"
proof (induction bs arbitrary: j steer count)
  case Nil
  then show ?case by simp
next
  case (Cons b bs)
  show ?case
  proof (cases "j \<noteq> i \<and> neighbour this separationRadius b")
    case True
    with Cons.prems
    have "separation_loop this i (Suc j) bs
            (add steer (divideScalar (normalize3 (subVectors (position this) (position b)))
               (distanceTo (position this) (position b)))) (Suc count) = (s', c')"
      by (simp add: neighbour_def Let_def)
    from Cons.IH [OF this] show ?thesis by auto
  next
    case False
    with Cons.prems have "separation_loop this i (Suc j) bs steer count = (s', c')"
      by (auto simp add: neighbour_def Let_def split: if_splits)
    from Cons.IH [OF this] show ?thesis .
  qed
qed

lemma length3_clampLength_le: "0 \<le> mx \<Longrightarrow> length3 (clampLength v 0 mx) \<le> mx"
  by (simp add: length3_clampLength)

lemma maxForce_nonneg: "0 \<le> maxForce"
  by (simp add: maxForce_def)

lemma length3_separation: "length3 (separation this i bs) \<le> maxForce"
proof -
  obtain s c where l: "separation_loop this i 0 bs zero3 0 = (s, c)"
    by (cases "separation_loop this i 0 bs zero3 0")
  show ?thesis
  proof (cases "0 < c")
    case True
    with l show ?thesis
      by (simp add: separation_def Let_def length3_clampLength_le maxForce_nonneg)
  next
    case False
    with separation_loop_count [OF l] have "s = zero3" by simp
    with l False show ?thesis
      by (simp add: separation_def length3_zero3 maxForce_nonneg)
  qed
qed

lemma length3_alignment: "length3 (alignment this i bs) \<le> maxForce"
  by (simp add: alignment_def Let_def length3_clampLength_le length3_zero3 maxForce_nonneg
      split: prod.splits)

lemma length3_seek: "length3 (seek this target) \<le> maxForce"
  by (simp add: seek_def Let_def length3_clampLength_le maxForce_nonneg)

lemma length3_cohesion: "length3 (cohesion this i bs) \<le> maxForce"
  by (simp add: cohesion_def length3_seek length3_zero3 maxForce_nonneg split: prod.splits)

lemma length3_mouseRepel: "length3 (fst (mouseRepel this mp)) \<le> maxForce * 4"
  by (simp add: mouseRepel_def Let_def length3_clampLength_le length3_zero3 maxForce_nonneg)


section \<open>Mouse repulsion, wrapping and the update step\<close>

text \<open>
  Clamping a unit vector scaled by a positive factor scales the unit vector by the clamped
  factor, which gives \<^verbatim>\<open>mouseRepel\<close> in closed form. \<^verbatim>\<open>wrapEdges\<close> and the fields
  \<^verbatim>\<open>update\<close> leaves behind follow by unfolding.
\<close>

lemma clampLength_unit_scaled:
  assumes "length3 n = 1" "0 < s" "0 \<le> mx"
  shows "clampLength (multiplyScalar n s) 0 mx = multiplyScalar n (min s mx)"
proof -
  have l: "length3 (multiplyScalar n s) = s"
    using assms by (simp add: length3_multiplyScalar)
  have m: "max 0 (min mx s) = min s mx"
    using assms by (simp add: min.commute)
  have "clampLength (multiplyScalar n s) 0 mx =
          multiplyScalar (divideScalar (multiplyScalar n s) s) (min s mx)"
    using assms(2) by (simp add: clampLength_def l m or_one_def)
  also have "\<dots> = multiplyScalar n (min s mx)"
    using assms(2) by (cases n) (simp add: divideScalar_def multiplyScalar_def)
  finally show ?thesis .
qed

lemma mouseRepel_eq:
  "mouseRepel this mp =
     (let d = distanceTo (position this) mp
      in if 0 < d \<and> d < mouseRepelRadius
         then (multiplyScalar (normalize3 (subVectors (position this) mp))
                 (min (mouseRepelStrength * (1 - d / mouseRepelRadius)) (4 * maxForce)),
               this\<lparr>isNearMouse := True\<rparr>)
         else (zero3, this))"
proof (cases "0 < distanceTo (position this) mp \<and> distanceTo (position this) mp < mouseRepelRadius")
  case True
  let ?d = "distanceTo (position this) mp"
  let ?n = "normalize3 (subVectors (position this) mp)"
  let ?s = "mouseRepelStrength * (1 - ?d / mouseRepelRadius)"
  from True have n: "length3 ?n = 1"
    by (simp add: length3_normalize3 flip: distanceTo_subVectors)
  from True have s: "0 < ?s"
    by (simp add: mouseRepelStrength_def mouseRepelRadius_def)
  have "clampLength (multiplyScalar ?n ?s) 0 (maxForce * 4) = multiplyScalar ?n (min ?s (maxForce * 4))"
    using n s by (rule clampLength_unit_scaled) (simp add: maxForce_def)
  with True show ?thesis
    by (simp add: mouseRepel_def Let_def mult.commute)
next
  case False
  then show ?thesis
    by (auto simp add: mouseRepel_def Let_def)
qed

lemma wrapEdges_eq:
  "wrapEdges p =
     Vector3
       (if vx p > boundarySize then - boundarySize
        else if vx p < - boundarySize then boundarySize else vx p)
       (if vy p > boundarySize then - boundarySize
        else if vy p < - boundarySize then boundarySize else vy p)
       (if vz p > boundarySize then - boundarySize
        else if vz p < - boundarySize then boundarySize else vz p)"
  by (simp add: wrapEdges_def Let_def boundarySize_def)

lemma position_update:
  "position (update b sc) = wrapEdges (add (position b) (velocity (update b sc)))"
  by (simp add: update_def Let_def)

lemma acceleration_update: "acceleration (update b sc) = zero3"
  by (simp add: update_def Let_def zero3_def)

lemma isNearMouse_update: "\<not> isNearMouse (update b sc)"
  by (simp add: update_def Let_def)

lemma homePosition_update: "homePosition (update b sc) = homePosition b"
  by (simp add: update_def Let_def)


section \<open>Settling in Formed mode\<close>

text \<open>
  Inside the boundary the interpolation toward home stays inside, so the wrap is the
  identity; with zero acceleration the update adds nothing to the position. A Formed frame
  with the pointer inactive thus moves a settling agent by the interpolation alone, which
  shrinks its distance to home by the factor 0.9, and leaves it settling.
\<close>

lemma wrapEdges_in_box: "in_box p \<Longrightarrow> wrapEdges p = p"
  by (cases p) (auto simp add: wrapEdges_eq in_box_def)

lemma in_box_lerp: "in_box p \<Longrightarrow> in_box h \<Longrightarrow> in_box (lerp p h (1 / 10))"
  unfolding in_box_def lerp_def abs_le_iff vec3.sel by argo

lemma distanceTo_lerp: "distanceTo (lerp p h (1 / 10)) h = 9 / 10 * distanceTo p h"
proof -
  have "subVectors (lerp p h (1 / 10)) h = multiplyScalar (subVectors p h) (9 / 10)"
    unfolding subVectors_def lerp_def multiplyScalar_def vec3.sel vec3.inject by argo
  then show ?thesis
    by (simp add: distanceTo_subVectors length3_multiplyScalar)
qed

lemma clampLength_zero3: "clampLength zero3 mn mx = zero3"
  by (simp add: clampLength_def length3_zero3 or_one_def divideScalar_def multiplyScalar_def zero3_def)

lemma multiplyScalar_zero3: "multiplyScalar zero3 s = zero3"
  by (simp add: multiplyScalar_def zero3_def)

lemma add_zero3_left: "add zero3 v = v"
  by (cases v) (simp add: add_def zero3_def)

lemma formed_frame_boid:
  assumes "acceleration b = zero3" "in_box (position b)" "in_box (homePosition b)"
  shows "update (flock b i bs mp False False) False =
           b\<lparr>velocity := zero3, position := lerp (position b) (homePosition b) (1 / 10),
             isNearMouse := False\<rparr>"
proof -
  let ?p = "lerp (position b) (homePosition b) (1 / 10)"
  have f: "flock b i bs mp False False = b\<lparr>velocity := zero3, position := ?p\<rparr>"
    using assms(1) by (simp add: flock_formed Let_def add_zero3_right flip: zero3_def)
  have w: "wrapEdges ?p = ?p"
    using assms(2,3) by (simp add: wrapEdges_in_box in_box_lerp)
  show ?thesis
    using assms(1)
    by (simp add: f update_def Let_def add_zero3_right clampLength_zero3 multiplyScalar_zero3 w
        flip: zero3_def)
qed

lemma animate_inactive_mode:
  "\<not> mouseActive inp \<Longrightarrow> \<not> isScattered s \<Longrightarrow> \<not> isScattered (animate inp s)"
  by (simp add: animate_def check_collision_def manage_timer_def split: prod.splits if_splits)

lemma length_boids_animate: "length (boids (animate inp s)) = length (boids s)"
  by (simp add: animate_def update_pass_def flock_pass_def length_flock_prefix split: prod.splits)

lemma length_boids_frames: "length (boids (frames inps s)) = length (boids s)"
  by (induction inps arbitrary: s) (simp_all add: length_boids_animate)

lemma animate_formed_boid:
  assumes "\<not> mouseActive inp" "\<not> isScattered s" "i < length (boids s)"
  shows "boids (animate inp s) ! i =
           update (flock (boids s ! i) i (boids s) (mousePos inp) False False) False"
proof -
  have "manage_timer (check_collision inp (boids s) (isScattered s, scatterTimer s)) =
          (False, scatterTimer s - 1)"
    using assms(1,2) by (simp add: check_collision_def manage_timer_def)
  then show ?thesis
    using assms(1,3) by (simp add: animate_def update_pass_def flock_pass_formed)
qed

lemma animate_settling:
  assumes "\<not> mouseActive inp" "settling s i"
  shows "boids (animate inp s) ! i =
           (boids s ! i)\<lparr>velocity := zero3,
              position := lerp (position (boids s ! i)) (homePosition (boids s ! i)) (1 / 10),
              isNearMouse := False\<rparr>"
    and "settling (animate inp s) i"
proof -
  from assms show b: "boids (animate inp s) ! i =
           (boids s ! i)\<lparr>velocity := zero3,
              position := lerp (position (boids s ! i)) (homePosition (boids s ! i)) (1 / 10),
              isNearMouse := False\<rparr>"
    by (simp add: settling_def animate_formed_boid formed_frame_boid)
  from assms show "settling (animate inp s) i"
    unfolding settling_def b
    by (simp add: animate_inactive_mode length_boids_animate in_box_lerp)
qed

lemma frames_append: "frames (inps @ [inp]) s = animate inp (frames inps s)"
  by (induction inps arbitrary: s) simp_all

lemma frames_settling:
  assumes "list_all (\<lambda>inp. \<not> mouseActive inp) inps" "settling s i"
  shows "settling (frames inps s) i"
    and "homeDistance (boids (frames inps s) ! i) = (9 / 10) ^ length inps * homeDistance (boids s ! i)"
  using assms
proof (induction inps arbitrary: s)
  case Nil
  { case 1 then show ?case by simp }
  { case 2 then show ?case by simp }
next
  case (Cons inp inps)
  { case 1
    then have "settling (animate inp s) i" by (simp add: animate_settling)
    with Cons(1) 1 show ?case by simp }
  { case 2
    then have s: "settling (animate inp s) i" by (simp add: animate_settling)
    from 2 have "homeDistance (boids (animate inp s) ! i) = 9 / 10 * homeDistance (boids s ! i)"
      by (simp add: animate_settling homeDistance_def distanceTo_lerp)
    with Cons(2) [OF _ s] 2 show ?case by simp }
qed


section \<open>Evaluation on concrete vectors\<close>

text \<open>Rules for computing on explicit vectors along the x axis.\<close>

lemma length3_x_axis: "length3 (Vector3 a 0 0) = \<bar>a\<bar>"
  by (simp add: length3_def lengthSq_def)

lemmas vec_simps = distanceTo_subVectors subVectors_def normalize3_def or_one_def divideScalar_def
  multiplyScalar_def add_def zero3_def clampLength_def length3_x_axis Let_def lerp_def

lemmas config_simps = maxSpeed_def maxForce_def separationRadius_def alignmentRadius_def
  cohesionRadius_def separationWeight_def alignmentWeight_def cohesionWeight_def
  mouseRepelRadius_def mouseRepelStrength_def boundarySize_def SCATTER_DURATION_def


section \<open>What the steering methods write\<close>

text \<open>
  Every write of a steering method goes to a vector the method has allocated itself, at
  an address beyond the store it was called in; each method therefore extends that store.
\<close>

lemma take_store:
  "n \<le> a \<Longrightarrow> take n (vectors (store a v m)) = take n (vectors m)"
  by (simp add: store_def)

lemma objects_store: "objects (store a v m) = objects m"
  by (simp add: store_def)

lemma length_store: "length (vectors (store a v m)) = length (vectors m)"
  by (simp add: store_def)

lemma new_Vector3_props:
  assumes "new_Vector3 m = (a, m')"
  shows "a = length (vectors m)" "objects m' = objects m"
    "length (vectors m') = Suc (length (vectors m))"
    "n \<le> length (vectors m) \<Longrightarrow> take n (vectors m') = take n (vectors m)"
  using assms by (auto simp add: new_Vector3_def)

lemma extends_refl: "extends n m m"
  by (simp add: extends_def)

lemma extends_trans: "extends n m m' \<Longrightarrow> extends n m' m'' \<Longrightarrow> extends n m m''"
  by (simp add: extends_def)

lemma extends_store: "n \<le> a \<Longrightarrow> extends n m (store a v m)"
  by (simp add: extends_def take_store objects_store length_store)

lemma extends_new: "n \<le> length (vectors m) \<Longrightarrow> new_Vector3 m = (a, m') \<Longrightarrow> extends n m m'"
  by (auto simp add: extends_def new_Vector3_def)

lemma extends_store_after:
  "extends n m m' \<Longrightarrow> n \<le> a \<Longrightarrow> extends n m (store a v m')"
  using extends_trans extends_store by blast

lemma separation_loop_m_extends:
  "separation_loop_m i steer js count m = (c, m') \<Longrightarrow> n \<le> steer \<Longrightarrow>
     n \<le> length (vectors m) \<Longrightarrow> extends n m m'"
proof (induction js arbitrary: count m)
  case Nil
  then show ?case by (simp add: extends_refl)
next
  case (Cons j js)
  show ?case
  proof (cases "j \<noteq> i \<and> neighbour (boid_of m (objects m ! i)) separationRadius (boid_of m (objects m ! j))")
    case False
    with Cons.prems have "separation_loop_m i steer js count m = (c, m')"
      by (auto simp add: neighbour_def boid_of_def Let_def split: if_splits)
    from Cons.IH [OF this Cons.prems(2,3)] show ?thesis .
  next
    case True
    let ?me = "objects m ! i" and ?ot = "objects m ! j"
    let ?d = "distanceTo (load m (position_at ?me)) (load m (position_at ?ot))"
    obtain diff m0 where new: "new_Vector3 m = (diff, m0)"
      by (cases "new_Vector3 m")
    let ?m1 = "store diff (subVectors (load m0 (position_at ?me)) (load m0 (position_at ?ot))) m0"
    let ?m2 = "store diff (normalize3 (load ?m1 diff)) ?m1"
    let ?m3 = "store diff (divideScalar (load ?m2 diff) ?d) ?m2"
    let ?m4 = "store steer (add (load ?m3 steer) (load ?m3 diff)) ?m3"
    from True Cons.prems(1) new have rec: "separation_loop_m i steer js (Suc count) ?m4 = (c, m')"
      by (simp add: neighbour_def boid_of_def Let_def new_Vector3_props(2) [OF new])
    have d: "n \<le> diff"
      using new Cons.prems(3) by (simp add: new_Vector3_def)
    have e: "extends n m ?m4"
      using extends_new [OF Cons.prems(3) new] d Cons.prems(2)
      by (intro extends_store_after)
    then have "n \<le> length (vectors ?m4)"
      using Cons.prems(3) by (simp add: extends_def)
    from Cons.IH [OF rec Cons.prems(2) this] e show ?thesis
      by (rule extends_trans [rotated])
  qed
qed


lemma alignment_loop_m_extends:
  "alignment_loop_m i a js count m = (c, m') \<Longrightarrow> n \<le> a \<Longrightarrow> extends n m m'"
proof (induction js arbitrary: count m)
  case Nil
  then show ?case by (simp add: extends_refl)
next
  case (Cons j js)
  show ?case
  proof (cases "j \<noteq> i \<and> neighbour (boid_of m (objects m ! i)) alignmentRadius (boid_of m (objects m ! j))")
    case False
    with Cons.prems have "alignment_loop_m i a js count m = (c, m')"
      by (auto simp add: neighbour_def boid_of_def Let_def split: if_splits)
    from Cons.IH [OF this Cons.prems(2)] show ?thesis .
  next
    case True
    let ?m1 = "store a (add (load m a) (load m (velocity_at (objects m ! j)))) m"
    from True Cons.prems(1) have "alignment_loop_m i a js (Suc count) ?m1 = (c, m')"
      by (simp add: neighbour_def boid_of_def Let_def)
    from Cons.IH [OF this Cons.prems(2)] extends_store [OF Cons.prems(2)] show ?thesis
      by (rule extends_trans [rotated])
  qed
qed

lemma cohesion_loop_m_extends:
  "cohesion_loop_m i a js count m = (c, m') \<Longrightarrow> n \<le> a \<Longrightarrow> extends n m m'"
proof (induction js arbitrary: count m)
  case Nil
  then show ?case by (simp add: extends_refl)
next
  case (Cons j js)
  show ?case
  proof (cases "j \<noteq> i \<and> neighbour (boid_of m (objects m ! i)) cohesionRadius (boid_of m (objects m ! j))")
    case False
    with Cons.prems have "cohesion_loop_m i a js count m = (c, m')"
      by (auto simp add: neighbour_def boid_of_def Let_def split: if_splits)
    from Cons.IH [OF this Cons.prems(2)] show ?thesis .
  next
    case True
    let ?m1 = "store a (add (load m a) (load m (position_at (objects m ! j)))) m"
    from True Cons.prems(1) have "cohesion_loop_m i a js (Suc count) ?m1 = (c, m')"
      by (simp add: neighbour_def boid_of_def Let_def)
    from Cons.IH [OF this Cons.prems(2)] extends_store [OF Cons.prems(2)] show ?thesis
      by (rule extends_trans [rotated])
  qed
qed

lemma extends_length: "extends n m m' \<Longrightarrow> k \<le> length (vectors m) \<Longrightarrow> k \<le> length (vectors m')"
  by (simp add: extends_def)

lemma separation_m_extends:
  assumes "separation_m i m = (r, m')"
  shows "extends (length (vectors m)) m m'" and "length (vectors m) \<le> r"
proof -
  let ?n = "length (vectors m)"
  obtain steer m0 where new: "new_Vector3 m = (steer, m0)"
    by (cases "new_Vector3 m")
  obtain c m1 where loop: "separation_loop_m i steer [0 ..< length (objects m0)] 0 m0 = (c, m1)"
    by (cases "separation_loop_m i steer [0 ..< length (objects m0)] 0 m0")
  have s: "steer = ?n" and e0: "extends ?n m m0"
    using new by (auto simp add: new_Vector3_def extends_def)
  have e1: "extends ?n m0 m1"
    using loop s e0 by (intro separation_loop_m_extends [OF loop]) (simp_all add: extends_def)
  have r: "r = steer" and e2: "extends ?n m1 m'"
    using assms new loop s
    by (auto simp add: separation_m_def Let_def extends_refl split: if_splits
        intro!: extends_store_after extends_store)
  from e0 e1 e2 show "extends ?n m m'"
    by (blast intro: extends_trans)
  from r s show "?n \<le> r" by simp
qed

lemma alignment_m_extends:
  assumes "alignment_m i m = (r, m')"
  shows "extends (length (vectors m)) m m'" and "length (vectors m) \<le> r"
proof -
  let ?n = "length (vectors m)"
  obtain a m0 where new: "new_Vector3 m = (a, m0)"
    by (cases "new_Vector3 m")
  obtain c m1 where loop: "alignment_loop_m i a [0 ..< length (objects m0)] 0 m0 = (c, m1)"
    by (cases "alignment_loop_m i a [0 ..< length (objects m0)] 0 m0")
  have s: "a = ?n" and e0: "extends ?n m m0"
    using new by (auto simp add: new_Vector3_def extends_def)
  have e1: "extends ?n m0 m1"
    using s by (intro alignment_loop_m_extends [OF loop]) simp
  have n1: "?n \<le> length (vectors m1)"
    using e0 e1 by (simp add: extends_def)
  have "extends ?n m1 m' \<and> ?n \<le> r"
  proof (cases "0 < c")
    case False
    with assms new loop have "new_Vector3 m1 = (r, m')"
      by (simp add: alignment_m_def)
    with n1 show ?thesis
      by (auto simp add: new_Vector3_def extends_def)
  next
    case True
    let ?k1 = "store a (divideScalar (load m1 a) (real c)) m1"
    let ?k2 = "store a (normalize3 (load ?k1 a)) ?k1"
    let ?k3 = "store a (multiplyScalar (load ?k2 a) maxSpeed) ?k2"
    obtain st k4 where new2: "new_Vector3 ?k3 = (st, k4)"
      by (cases "new_Vector3 ?k3")
    have e3: "extends ?n m1 ?k3"
      using s by (intro extends_store_after extends_store) simp_all
    then have n3: "?n \<le> length (vectors ?k3)"
      using n1 by (rule extends_length)
    have st: "?n \<le> st" and e4: "extends ?n ?k3 k4"
      using new2 n3 by (auto simp add: new_Vector3_def extends_def simp del: length_store)
    from True assms new loop new2 have r: "r = st"
      and m': "m' = store st (clampLength (load (store st (subVectors (load k4 a) (load k4 (velocity_at (objects k4 ! i)))) k4) st) 0 maxForce)
                    (store st (subVectors (load k4 a) (load k4 (velocity_at (objects k4 ! i)))) k4)"
      by (auto simp add: alignment_m_def Let_def)
    have "extends ?n k4 m'"
      unfolding m' using st by (intro extends_store_after extends_store)
    with e3 e4 r st show ?thesis
      by (blast intro: extends_trans)
  qed
  with e0 e1 show "extends ?n m m'" and "?n \<le> r"
    by (blast intro: extends_trans)+
qed


lemma extends_mono: "extends k m m' \<Longrightarrow> n \<le> k \<Longrightarrow> extends n m m'"
proof -
  assume e: "extends k m m'" and n: "n \<le> k"
  have "take n (vectors m') = take n (take k (vectors m'))"
    using n by (simp add: min_absorb1)
  also have "\<dots> = take n (take k (vectors m))"
    using e by (simp add: extends_def)
  also have "\<dots> = take n (vectors m)"
    using n by (simp add: min_absorb1)
  finally show ?thesis
    using e by (simp add: extends_def)
qed

lemma seek_m_extends:
  assumes "seek_m i target m = (r, m')"
  shows "extends (length (vectors m)) m m'" and "length (vectors m) \<le> r"
proof -
  let ?n = "length (vectors m)"
  obtain d m0 where new: "new_Vector3 m = (d, m0)"
    by (cases "new_Vector3 m")
  let ?k1 = "store d (subVectors (load m0 target) (load m0 (position_at (objects m0 ! i)))) m0"
  let ?k2 = "store d (normalize3 (load ?k1 d)) ?k1"
  let ?k3 = "store d (multiplyScalar (load ?k2 d) maxSpeed) ?k2"
  obtain st k4 where new2: "new_Vector3 ?k3 = (st, k4)"
    by (cases "new_Vector3 ?k3")
  have s: "d = ?n" and e0: "extends ?n m m0"
    using new by (auto simp add: new_Vector3_def extends_def)
  have e3: "extends ?n m0 ?k3"
    using s by (intro extends_store_after extends_store) simp_all
  have n3: "?n \<le> length (vectors ?k3)"
    using e0 e3 by (simp add: extends_def)
  have st: "?n \<le> st" and e4: "extends ?n ?k3 k4"
    using new2 n3 by (auto simp add: new_Vector3_def extends_def simp del: length_store)
  have "r = st \<and> extends ?n k4 m'"
    using assms new new2 st
    by (auto simp add: seek_m_def Let_def intro!: extends_store_after extends_store)
  with e0 e3 e4 st show "extends ?n m m'" and "?n \<le> r"
    by (blast intro: extends_trans)+
qed

lemma cohesion_m_extends:
  assumes "cohesion_m i m = (r, m')"
  shows "extends (length (vectors m)) m m'" and "length (vectors m) \<le> r"
proof -
  let ?n = "length (vectors m)"
  obtain a m0 where new: "new_Vector3 m = (a, m0)"
    by (cases "new_Vector3 m")
  obtain c m1 where loop: "cohesion_loop_m i a [0 ..< length (objects m0)] 0 m0 = (c, m1)"
    by (cases "cohesion_loop_m i a [0 ..< length (objects m0)] 0 m0")
  have s: "a = ?n" and e0: "extends ?n m m0"
    using new by (auto simp add: new_Vector3_def extends_def)
  have e1: "extends ?n m0 m1"
    using s by (intro cohesion_loop_m_extends [OF loop]) simp
  have n1: "?n \<le> length (vectors m1)"
    using e0 e1 by (simp add: extends_def)
  have "extends ?n m1 m' \<and> ?n \<le> r"
  proof (cases "0 < c")
    case False
    with assms new loop have "new_Vector3 m1 = (r, m')"
      by (simp add: cohesion_m_def)
    with n1 show ?thesis
      by (auto simp add: new_Vector3_def extends_def)
  next
    case True
    let ?k1 = "store a (divideScalar (load m1 a) (real c)) m1"
    from True assms new loop have sk: "seek_m i a ?k1 = (r, m')"
      by (simp add: cohesion_m_def Let_def)
    have e2: "extends ?n m1 ?k1"
      using s by (intro extends_store) simp
    then have n2: "?n \<le> length (vectors ?k1)"
      using n1 by (rule extends_length)
    from seek_m_extends [OF sk] n2 have "extends ?n ?k1 m'" "?n \<le> r"
      by (auto intro: extends_mono)
    with e2 show ?thesis
      by (blast intro: extends_trans)
  qed
  with e0 e1 show "extends ?n m m'" and "?n \<le> r"
    by (blast intro: extends_trans)+
qed

lemma mouseRepel_m_frame:
  assumes "mouseRepel_m i mp m = (r, m')"
  shows "take (length (vectors m)) (vectors m') = vectors m"
    and "length (vectors m) \<le> r"
    and "objects m' = objects m \<or>
         objects m' = (objects m)[i := (objects m ! i)\<lparr>isNearMouse_flag := True\<rparr>]"
  using assms
  by (auto simp add: mouseRepel_m_def new_Vector3_def store_def Let_def split: if_splits)

lemma load_extends:
  "extends n m m' \<Longrightarrow> a < n \<Longrightarrow> load m' a = load m a"
proof -
  assume e: "extends n m m'" and a: "a < n"
  then have "take n (vectors m') ! a = take n (vectors m) ! a"
    by (simp add: extends_def)
  with a show ?thesis
    by (simp add: load_def)
qed

lemma swarm_of_extends:
  assumes "extends (length (vectors m)) m m'" "allocated m"
  shows "swarm_of m' = swarm_of m"
proof -
  have "boid_of m' b = boid_of m b" if "b \<in> set (objects m)" for b
    using that assms(2) load_extends [OF assms(1)]
    by (simp add: boid_of_def allocated_def list_all_iff)
  with assms(1) show ?thesis
    by (simp add: swarm_of_def extends_def)
qed

lemma seek_m_result:
  "seek_m i target m = (r, m') \<Longrightarrow> r < length (vectors m')"
  by (auto simp add: seek_m_def new_Vector3_def Let_def length_store)

lemma seekHome_m_extends:
  assumes "seekHome_m i m = (r, m')"
  shows "extends (length (vectors m)) m m'" and "length (vectors m) \<le> r"
proof -
  obtain st m1 where sk: "seek_m i (homePosition_at (objects m ! i)) m = (st, m1)"
    by (cases "seek_m i (homePosition_at (objects m ! i)) m")
  with assms have r: "r = st"
    and m': "m' = store st (multiplyScalar (load m1 st) homeAttractionStrength) m1"
    by (auto simp add: seekHome_m_def)
  from seek_m_extends [OF sk] r show "length (vectors m) \<le> r"
    by simp
  from seek_m_extends [OF sk] show "extends (length (vectors m)) m m'"
    unfolding m' by (rule extends_store_after)
qed


section \<open>The store methods compute the steering vectors\<close>

text \<open>
  The vector a store method returns is the one the pure method of the same name computes
  from the agents read off the store: the agents' fields keep their values while the
  method runs, and the locals it writes are distinct from one another.
\<close>

lemma load_store_same: "a < length (vectors m) \<Longrightarrow> load (store a v m) a = v"
  by (simp add: load_def store_def)

lemma load_store_other: "a \<noteq> b \<Longrightarrow> load (store a v m) b = load m b"
  by (simp add: load_def store_def)

lemma load_new_old:
  "b < length (vectors m) \<Longrightarrow> load (m\<lparr>vectors := vectors m @ [z]\<rparr>) b = load m b"
  by (simp add: load_def nth_append)

lemma load_new_fresh: "load (m\<lparr>vectors := vectors m @ [z]\<rparr>) (length (vectors m)) = z"
  by (simp add: load_def)

lemma allocated_nth:
  assumes "allocated m" "j < length (objects m)"
  shows "position_at (objects m ! j) < length (vectors m)"
    and "velocity_at (objects m ! j) < length (vectors m)"
    and "homePosition_at (objects m ! j) < length (vectors m)"
    and "acceleration_at (objects m ! j) < length (vectors m)"
  using assms by (simp_all add: allocated_def list_all_length)

text \<open>What a method reads from an agent, in a store that extends the one it was called in.\<close>

lemma field_extends:
  assumes "allocated m0" "extends (length (vectors m0)) m0 m" "j < length (objects m0)"
  shows "load m (position_at (objects m ! j)) = position (swarm_of m0 ! j)"
    and "load m (velocity_at (objects m ! j)) = velocity (swarm_of m0 ! j)"
proof -
  from assms(2) have o: "objects m = objects m0"
    by (simp add: extends_def)
  show "load m (position_at (objects m ! j)) = position (swarm_of m0 ! j)"
    using assms(3) allocated_nth(1) [OF assms(1,3)] load_extends [OF assms(2)]
    by (simp add: o swarm_of_def boid_of_def)
  show "load m (velocity_at (objects m ! j)) = velocity (swarm_of m0 ! j)"
    using assms(3) allocated_nth(2) [OF assms(1,3)] load_extends [OF assms(2)]
    by (simp add: o swarm_of_def boid_of_def)
qed

lemma separation_loop_m_refines:
  assumes a: "allocated m0" and i: "i < length (objects m0)"
  shows "extends (length (vectors m0)) m0 m \<Longrightarrow> length (vectors m0) \<le> steer \<Longrightarrow>
     steer < length (vectors m) \<Longrightarrow> j \<le> length (objects m0) \<Longrightarrow>
     separation_loop_m i steer [j ..< length (objects m0)] count m = (c, m') \<Longrightarrow>
     separation_loop (swarm_of m0 ! i) i j (drop j (swarm_of m0)) (load m steer) count =
       (load m' steer, c)"
proof (induction "length (objects m0) - j" arbitrary: j count m)
  case 0
  then show ?case by (simp add: swarm_of_def)
next
  case (Suc k)
  let ?n = "length (vectors m0)" and ?N = "length (objects m0)"
  let ?bs = "swarm_of m0"
  from Suc.hyps(2) have j: "j < ?N" by simp
  then have js: "[j ..< ?N] = j # [Suc j ..< ?N]"
    by (simp add: upt_conv_Cons)
  from j have "j < length ?bs"
    by (simp add: swarm_of_def)
  then have dr: "drop j ?bs = ?bs ! j # drop (Suc j) ?bs"
    by (rule Cons_nth_drop_Suc [symmetric])
  from Suc.hyps(2) have k: "k = ?N - Suc j" by simp
  have pi: "load m (position_at (objects m ! i)) = position (?bs ! i)"
    using a Suc.prems(1) i by (rule field_extends)
  have pj: "load m (position_at (objects m ! j)) = position (?bs ! j)"
    using a Suc.prems(1) j by (rule field_extends)
  let ?d = "distanceTo (position (?bs ! i)) (position (?bs ! j))"
  show ?case
  proof (cases "j \<noteq> i \<and> 0 < ?d \<and> ?d < separationRadius")
    case False
    with Suc.prems(5) have "separation_loop_m i steer [Suc j ..< ?N] count m = (c, m')"
      by (auto simp add: js pi pj Let_def split: if_splits)
    from Suc.hyps(1) [OF k Suc.prems(1,2,3) _ this] j False show ?thesis
      by (auto simp add: dr Let_def)
  next
    case True
    let ?diff = "length (vectors m)"
    let ?v = "divideScalar (normalize3 (subVectors (position (?bs ! i)) (position (?bs ! j)))) ?d"
    let ?m0 = "m\<lparr>vectors := vectors m @ [Vector3 0 0 0]\<rparr>"
    let ?m1 = "store ?diff (subVectors (load ?m0 (position_at (objects m ! i))) (load ?m0 (position_at (objects m ! j)))) ?m0"
    let ?m2 = "store ?diff (normalize3 (load ?m1 ?diff)) ?m1"
    let ?m3 = "store ?diff (divideScalar (load ?m2 ?diff) ?d) ?m2"
    let ?m4 = "store steer (add (load ?m3 steer) (load ?m3 ?diff)) ?m3"
    from True Suc.prems(5) have rec: "separation_loop_m i steer [Suc j ..< ?N] (Suc count) ?m4 = (c, m')"
      by (simp add: js pi pj Let_def new_Vector3_def)
    have fi: "position_at (objects m ! i) < length (vectors m)"
      and fj: "position_at (objects m ! j) < length (vectors m)"
      using allocated_nth(1) [OF a i] allocated_nth(1) [OF a j] Suc.prems(1)
      by (simp_all add: extends_def)
    have l0: "load ?m0 (position_at (objects m ! i)) = position (?bs ! i)"
      "load ?m0 (position_at (objects m ! j)) = position (?bs ! j)"
      using fi fj by (simp_all add: load_new_old pi pj)
    have ne: "?diff \<noteq> steer"
      using Suc.prems(3) by simp
    have d3: "load ?m3 ?diff = ?v"
      by (simp add: load_store_same length_store l0)
    have s3: "load ?m3 steer = load m steer"
      using ne Suc.prems(3) by (simp add: load_store_other load_new_old)
    have "steer < length (vectors ?m3)"
      using Suc.prems(3) by (simp add: length_store)
    then have "load ?m4 steer = add (load ?m3 steer) (load ?m3 ?diff)"
      by (rule load_store_same)
    then have s4: "load ?m4 steer = add (load m steer) ?v"
      unfolding d3 s3 .
    have e0: "extends ?n m ?m0"
      using Suc.prems(1) by (simp add: extends_def)
    have e4: "extends ?n m ?m4"
      using e0 Suc.prems(1,2) by (intro extends_store_after) (simp_all add: extends_def)
    have e: "extends ?n m0 ?m4"
      using Suc.prems(1) e4 by (rule extends_trans)
    have l4: "steer < length (vectors ?m4)"
      using Suc.prems(3) by (simp add: length_store)
    from Suc.hyps(1) [OF k e Suc.prems(2) l4 _ rec] j True show ?thesis
      by (simp add: dr Let_def s4)
  qed
qed


lemma separation_m_refines:
  assumes a: "allocated m" and i: "i < length (objects m)"
    and run: "separation_m i m = (r, m')"
  shows "load m' r = separation (swarm_of m ! i) i (swarm_of m)"
proof -
  let ?n = "length (vectors m)"
  let ?m0 = "m\<lparr>vectors := vectors m @ [Vector3 0 0 0]\<rparr>"
  let ?me = "swarm_of m ! i"
  obtain c m1 where loop: "separation_loop_m i ?n [0 ..< length (objects m)] 0 ?m0 = (c, m1)"
    by (cases "separation_loop_m i ?n [0 ..< length (objects m)] 0 ?m0")
  have e0: "extends ?n m ?m0"
    by (simp add: extends_def)
  have e1: "extends ?n ?m0 m1"
    using loop by (rule separation_loop_m_extends) simp_all
  have e: "extends ?n m m1"
    using e0 e1 by (rule extends_trans)
  have l1: "?n < length (vectors m1)"
    using e1 by (simp add: extends_def)
  have "separation_loop ?me i 0 (drop 0 (swarm_of m)) (load ?m0 ?n) 0 = (load m1 ?n, c)"
    using a i e0 _ _ _ loop by (rule separation_loop_m_refines) simp_all
  then have pure: "separation_loop ?me i 0 (swarm_of m) zero3 0 = (load m1 ?n, c)"
    by (simp add: load_new_fresh zero3_def)
  show ?thesis
  proof (cases "0 < c")
    case False
    with run loop have "r = ?n" "m' = m1"
      by (simp_all add: separation_m_def new_Vector3_def)
    with False pure show ?thesis
      by (simp add: separation_def)
  next
    case True
    define k1 where "k1 = store ?n (divideScalar (load m1 ?n) (real c)) m1"
    define k2 where "k2 = store ?n (normalize3 (load k1 ?n)) k1"
    define k3 where "k3 = store ?n (multiplyScalar (load k2 ?n) maxSpeed) k2"
    define k4 where "k4 = store ?n (subVectors (load k3 ?n) (load k3 (velocity_at (objects k3 ! i)))) k3"
    define k5 where "k5 = store ?n (clampLength (load k4 ?n) 0 maxForce) k4"
    from True run loop have r: "r = ?n" and m': "m' = k5"
      by (auto simp add: separation_m_def new_Vector3_def Let_def k1_def k2_def k3_def k4_def k5_def)
    have len: "length (vectors k1) = length (vectors m1)" "length (vectors k2) = length (vectors m1)"
      "length (vectors k3) = length (vectors m1)" "length (vectors k4) = length (vectors m1)"
      by (simp_all add: k1_def k2_def k3_def k4_def length_store)
    have v1: "load k1 ?n = divideScalar (load m1 ?n) (real c)"
      unfolding k1_def using l1 by (rule load_store_same)
    have v2: "load k2 ?n = normalize3 (load k1 ?n)"
      unfolding k2_def using l1 by (intro load_store_same) (simp add: len)
    have v3: "load k3 ?n = multiplyScalar (load k2 ?n) maxSpeed"
      unfolding k3_def using l1 by (intro load_store_same) (simp add: len)
    have "extends ?n m1 k3"
      unfolding k3_def k2_def k1_def by (intro extends_store_after extends_store) simp_all
    with e have "extends ?n m k3"
      by (rule extends_trans)
    with a have vel: "load k3 (velocity_at (objects k3 ! i)) = velocity ?me"
      using i by (rule field_extends)
    have v4: "load k4 ?n = subVectors (load k3 ?n) (load k3 (velocity_at (objects k3 ! i)))"
      unfolding k4_def using l1 by (intro load_store_same) (simp add: len)
    have v5: "load k5 ?n = clampLength (load k4 ?n) 0 maxForce"
      unfolding k5_def using l1 by (intro load_store_same) (simp add: len)
    have "load m' r =
        clampLength (subVectors (multiplyScalar (normalize3 (divideScalar (load m1 ?n) (real c))) maxSpeed)
          (velocity ?me)) 0 maxForce"
      by (simp only: r m' v5 v4 vel v3 v2 v1)
    with True pure show ?thesis
      by (simp add: separation_def Let_def)
  qed
qed

lemma allocated_extends: "allocated m \<Longrightarrow> extends n m m' \<Longrightarrow> allocated m'"
  by (auto simp add: allocated_def extends_def list_all_iff)

lemma alignment_loop_m_refines:
  assumes a: "allocated m0" and i: "i < length (objects m0)"
  shows "extends (length (vectors m0)) m0 m \<Longrightarrow> length (vectors m0) \<le> avg \<Longrightarrow>
     avg < length (vectors m) \<Longrightarrow> j \<le> length (objects m0) \<Longrightarrow>
     alignment_loop_m i avg [j ..< length (objects m0)] count m = (c, m') \<Longrightarrow>
     alignment_loop (swarm_of m0 ! i) i j (drop j (swarm_of m0)) (load m avg) count =
       (load m' avg, c)"
proof (induction "length (objects m0) - j" arbitrary: j count m)
  case 0
  then show ?case by (simp add: swarm_of_def)
next
  case (Suc k)
  let ?n = "length (vectors m0)" and ?N = "length (objects m0)"
  let ?bs = "swarm_of m0"
  from Suc.hyps(2) have j: "j < ?N" by simp
  then have js: "[j ..< ?N] = j # [Suc j ..< ?N]"
    by (simp add: upt_conv_Cons)
  from j have "j < length ?bs"
    by (simp add: swarm_of_def)
  then have dr: "drop j ?bs = ?bs ! j # drop (Suc j) ?bs"
    by (rule Cons_nth_drop_Suc [symmetric])
  from Suc.hyps(2) have k: "k = ?N - Suc j" by simp
  have pi: "load m (position_at (objects m ! i)) = position (?bs ! i)"
    using a Suc.prems(1) i by (rule field_extends)
  have pj: "load m (position_at (objects m ! j)) = position (?bs ! j)"
    using a Suc.prems(1) j by (rule field_extends)
  have vj: "load m (velocity_at (objects m ! j)) = velocity (?bs ! j)"
    using a Suc.prems(1) j by (rule field_extends)
  let ?d = "distanceTo (position (?bs ! i)) (position (?bs ! j))"
  show ?case
  proof (cases "j \<noteq> i \<and> 0 < ?d \<and> ?d < alignmentRadius")
    case False
    with Suc.prems(5) have "alignment_loop_m i avg [Suc j ..< ?N] count m = (c, m')"
      by (auto simp add: js pi pj Let_def split: if_splits)
    from Suc.hyps(1) [OF k Suc.prems(1,2,3) _ this] j False show ?thesis
      by (auto simp add: dr Let_def)
  next
    case True
    define m1 where "m1 = store avg (add (load m avg) (velocity (?bs ! j))) m"
    from True Suc.prems(5) have rec: "alignment_loop_m i avg [Suc j ..< ?N] (Suc count) m1 = (c, m')"
      by (simp add: js pi pj vj Let_def m1_def)
    have s1: "load m1 avg = add (load m avg) (velocity (?bs ! j))"
      unfolding m1_def using Suc.prems(3) by (rule load_store_same)
    have "extends ?n m m1"
      unfolding m1_def using Suc.prems(2) by (rule extends_store)
    with Suc.prems(1) have e: "extends ?n m0 m1"
      by (rule extends_trans)
    have l1: "avg < length (vectors m1)"
      using Suc.prems(3) by (simp add: m1_def length_store)
    from Suc.hyps(1) [OF k e Suc.prems(2) l1 _ rec] j True show ?thesis
      by (simp add: dr Let_def s1)
  qed
qed

lemma cohesion_loop_m_refines:
  assumes a: "allocated m0" and i: "i < length (objects m0)"
  shows "extends (length (vectors m0)) m0 m \<Longrightarrow> length (vectors m0) \<le> com \<Longrightarrow>
     com < length (vectors m) \<Longrightarrow> j \<le> length (objects m0) \<Longrightarrow>
     cohesion_loop_m i com [j ..< length (objects m0)] count m = (c, m') \<Longrightarrow>
     cohesion_loop (swarm_of m0 ! i) i j (drop j (swarm_of m0)) (load m com) count =
       (load m' com, c)"
proof (induction "length (objects m0) - j" arbitrary: j count m)
  case 0
  then show ?case by (simp add: swarm_of_def)
next
  case (Suc k)
  let ?n = "length (vectors m0)" and ?N = "length (objects m0)"
  let ?bs = "swarm_of m0"
  from Suc.hyps(2) have j: "j < ?N" by simp
  then have js: "[j ..< ?N] = j # [Suc j ..< ?N]"
    by (simp add: upt_conv_Cons)
  from j have "j < length ?bs"
    by (simp add: swarm_of_def)
  then have dr: "drop j ?bs = ?bs ! j # drop (Suc j) ?bs"
    by (rule Cons_nth_drop_Suc [symmetric])
  from Suc.hyps(2) have k: "k = ?N - Suc j" by simp
  have pi: "load m (position_at (objects m ! i)) = position (?bs ! i)"
    using a Suc.prems(1) i by (rule field_extends)
  have pj: "load m (position_at (objects m ! j)) = position (?bs ! j)"
    using a Suc.prems(1) j by (rule field_extends)
  let ?d = "distanceTo (position (?bs ! i)) (position (?bs ! j))"
  show ?case
  proof (cases "j \<noteq> i \<and> 0 < ?d \<and> ?d < cohesionRadius")
    case False
    with Suc.prems(5) have "cohesion_loop_m i com [Suc j ..< ?N] count m = (c, m')"
      by (auto simp add: js pi pj Let_def split: if_splits)
    from Suc.hyps(1) [OF k Suc.prems(1,2,3) _ this] j False show ?thesis
      by (auto simp add: dr Let_def)
  next
    case True
    define m1 where "m1 = store com (add (load m com) (position (?bs ! j))) m"
    from True Suc.prems(5) have rec: "cohesion_loop_m i com [Suc j ..< ?N] (Suc count) m1 = (c, m')"
      by (simp add: js pi pj Let_def m1_def)
    have s1: "load m1 com = add (load m com) (position (?bs ! j))"
      unfolding m1_def using Suc.prems(3) by (rule load_store_same)
    have "extends ?n m m1"
      unfolding m1_def using Suc.prems(2) by (rule extends_store)
    with Suc.prems(1) have e: "extends ?n m0 m1"
      by (rule extends_trans)
    have l1: "com < length (vectors m1)"
      using Suc.prems(3) by (simp add: m1_def length_store)
    from Suc.hyps(1) [OF k e Suc.prems(2) l1 _ rec] j True show ?thesis
      by (simp add: dr Let_def s1)
  qed
qed

lemma seek_m_refines:
  assumes a: "allocated m" and i: "i < length (objects m)"
    and t: "target < length (vectors m)"
    and run: "seek_m i target m = (r, m')"
  shows "load m' r = seek (swarm_of m ! i) (load m target)"
proof -
  let ?n = "length (vectors m)"
  let ?me = "swarm_of m ! i"
  define m0 where "m0 = m\<lparr>vectors := vectors m @ [Vector3 0 0 0]\<rparr>"
  define k1 where "k1 = store ?n (subVectors (load m0 target) (load m0 (position_at (objects m0 ! i)))) m0"
  define k2 where "k2 = store ?n (normalize3 (load k1 ?n)) k1"
  define k3 where "k3 = store ?n (multiplyScalar (load k2 ?n) maxSpeed) k2"
  define k4 where "k4 = k3\<lparr>vectors := vectors k3 @ [Vector3 0 0 0]\<rparr>"
  define k5 where "k5 = store (Suc ?n) (subVectors (load k4 ?n) (load k4 (velocity_at (objects k4 ! i)))) k4"
  define k6 where "k6 = store (Suc ?n) (clampLength (load k5 (Suc ?n)) 0 maxForce) k5"
  have len: "length (vectors m0) = Suc ?n" "length (vectors k1) = Suc ?n"
    "length (vectors k2) = Suc ?n" "length (vectors k3) = Suc ?n"
    "length (vectors k4) = Suc (Suc ?n)" "length (vectors k5) = Suc (Suc ?n)"
    by (simp_all add: m0_def k1_def k2_def k3_def k4_def k5_def length_store)
  from run have r: "r = Suc ?n" and m': "m' = k6"
    by (auto simp add: seek_m_def new_Vector3_def Let_def length_store
        m0_def k1_def k2_def k3_def k4_def k5_def k6_def)
  have e0: "extends ?n m m0"
    by (simp add: extends_def m0_def)
  have e3: "extends ?n m k3"
    unfolding k3_def k2_def k1_def using e0 by (intro extends_store_after) simp_all
  have "extends ?n k3 k4"
    by (simp add: extends_def k4_def len)
  with e3 have e4: "extends ?n m k4"
    by (rule extends_trans)
  have tg: "load m0 target = load m target"
    using e0 t by (rule load_extends)
  have pos: "load m0 (position_at (objects m0 ! i)) = position ?me"
    using a e0 i by (rule field_extends)
  have vel: "load k4 (velocity_at (objects k4 ! i)) = velocity ?me"
    using a e4 i by (rule field_extends)
  have v1: "load k1 ?n = subVectors (load m0 target) (load m0 (position_at (objects m0 ! i)))"
    unfolding k1_def by (intro load_store_same) (simp add: len)
  have v2: "load k2 ?n = normalize3 (load k1 ?n)"
    unfolding k2_def by (intro load_store_same) (simp add: len)
  have v3: "load k3 ?n = multiplyScalar (load k2 ?n) maxSpeed"
    unfolding k3_def by (intro load_store_same) (simp add: len)
  have v4: "load k4 ?n = load k3 ?n"
    unfolding k4_def by (intro load_new_old) (simp add: len)
  have v5: "load k5 (Suc ?n) = subVectors (load k4 ?n) (load k4 (velocity_at (objects k4 ! i)))"
    unfolding k5_def by (intro load_store_same) (simp add: len)
  have v6: "load k6 (Suc ?n) = clampLength (load k5 (Suc ?n)) 0 maxForce"
    unfolding k6_def by (intro load_store_same) (simp add: len)
  have "load m' r =
      clampLength (subVectors (multiplyScalar (normalize3 (subVectors (load m target) (position ?me))) maxSpeed)
        (velocity ?me)) 0 maxForce"
    by (simp only: r m' v6 v5 vel v4 v3 v2 v1 tg pos)
  then show ?thesis
    by (simp add: seek_def Let_def)
qed

lemma alignment_m_refines:
  assumes a: "allocated m" and i: "i < length (objects m)"
    and run: "alignment_m i m = (r, m')"
  shows "load m' r = alignment (swarm_of m ! i) i (swarm_of m)"
proof -
  let ?n = "length (vectors m)"
  let ?m0 = "m\<lparr>vectors := vectors m @ [Vector3 0 0 0]\<rparr>"
  let ?me = "swarm_of m ! i"
  obtain c m1 where loop: "alignment_loop_m i ?n [0 ..< length (objects m)] 0 ?m0 = (c, m1)"
    by (cases "alignment_loop_m i ?n [0 ..< length (objects m)] 0 ?m0")
  have e0: "extends ?n m ?m0"
    by (simp add: extends_def)
  have e1: "extends ?n ?m0 m1"
    using loop by (rule alignment_loop_m_extends) simp
  have e: "extends ?n m m1"
    using e0 e1 by (rule extends_trans)
  have l1: "?n < length (vectors m1)"
    using e1 by (simp add: extends_def)
  have "alignment_loop ?me i 0 (drop 0 (swarm_of m)) (load ?m0 ?n) 0 = (load m1 ?n, c)"
    using a i e0 _ _ _ loop by (rule alignment_loop_m_refines) simp_all
  then have pure: "alignment_loop ?me i 0 (swarm_of m) zero3 0 = (load m1 ?n, c)"
    by (simp add: load_new_fresh zero3_def)
  show ?thesis
  proof (cases "0 < c")
    case False
    with run loop have "new_Vector3 m1 = (r, m')"
      by (simp add: alignment_m_def new_Vector3_def)
    then have "load m' r = zero3"
      by (auto simp add: new_Vector3_def load_def zero3_def)
    with False pure show ?thesis
      by (simp add: alignment_def)
  next
    case True
    let ?s = "length (vectors m1)"
    define k1 where "k1 = store ?n (divideScalar (load m1 ?n) (real c)) m1"
    define k2 where "k2 = store ?n (normalize3 (load k1 ?n)) k1"
    define k3 where "k3 = store ?n (multiplyScalar (load k2 ?n) maxSpeed) k2"
    define k4 where "k4 = k3\<lparr>vectors := vectors k3 @ [Vector3 0 0 0]\<rparr>"
    define k5 where "k5 = store ?s (subVectors (load k4 ?n) (load k4 (velocity_at (objects k4 ! i)))) k4"
    define k6 where "k6 = store ?s (clampLength (load k5 ?s) 0 maxForce) k5"
    have len: "length (vectors k1) = ?s" "length (vectors k2) = ?s" "length (vectors k3) = ?s"
      "length (vectors k4) = Suc ?s" "length (vectors k5) = Suc ?s"
      by (simp_all add: k1_def k2_def k3_def k4_def k5_def length_store)
    from True run loop have r: "r = ?s" and m': "m' = k6"
      by (auto simp add: alignment_m_def new_Vector3_def Let_def length_store
          k1_def k2_def k3_def k4_def k5_def k6_def)
    have "extends ?n m1 k3"
      unfolding k3_def k2_def k1_def by (intro extends_store_after extends_store) simp_all
    with e have e3: "extends ?n m k3"
      by (rule extends_trans)
    have "extends ?n k3 k4"
      using l1 by (simp add: extends_def k4_def len)
    with e3 have e4: "extends ?n m k4"
      by (rule extends_trans)
    have vel: "load k4 (velocity_at (objects k4 ! i)) = velocity ?me"
      using a e4 i by (rule field_extends)
    have v1: "load k1 ?n = divideScalar (load m1 ?n) (real c)"
      unfolding k1_def using l1 by (rule load_store_same)
    have v2: "load k2 ?n = normalize3 (load k1 ?n)"
      unfolding k2_def using l1 by (intro load_store_same) (simp add: len)
    have v3: "load k3 ?n = multiplyScalar (load k2 ?n) maxSpeed"
      unfolding k3_def using l1 by (intro load_store_same) (simp add: len)
    have v4: "load k4 ?n = load k3 ?n"
      unfolding k4_def using l1 by (intro load_new_old) (simp add: len)
    have v5: "load k5 ?s = subVectors (load k4 ?n) (load k4 (velocity_at (objects k4 ! i)))"
      unfolding k5_def by (intro load_store_same) (simp add: len)
    have v6: "load k6 ?s = clampLength (load k5 ?s) 0 maxForce"
      unfolding k6_def by (intro load_store_same) (simp add: len)
    have "load m' r =
        clampLength (subVectors (multiplyScalar (normalize3 (divideScalar (load m1 ?n) (real c))) maxSpeed)
          (velocity ?me)) 0 maxForce"
      by (simp only: r m' v6 v5 vel v4 v3 v2 v1)
    with True pure show ?thesis
      by (simp add: alignment_def Let_def)
  qed
qed

lemma cohesion_m_refines:
  assumes a: "allocated m" and i: "i < length (objects m)"
    and run: "cohesion_m i m = (r, m')"
  shows "load m' r = cohesion (swarm_of m ! i) i (swarm_of m)"
proof -
  let ?n = "length (vectors m)"
  let ?m0 = "m\<lparr>vectors := vectors m @ [Vector3 0 0 0]\<rparr>"
  let ?me = "swarm_of m ! i"
  obtain c m1 where loop: "cohesion_loop_m i ?n [0 ..< length (objects m)] 0 ?m0 = (c, m1)"
    by (cases "cohesion_loop_m i ?n [0 ..< length (objects m)] 0 ?m0")
  have e0: "extends ?n m ?m0"
    by (simp add: extends_def)
  have e1: "extends ?n ?m0 m1"
    using loop by (rule cohesion_loop_m_extends) simp
  have e: "extends ?n m m1"
    using e0 e1 by (rule extends_trans)
  have l1: "?n < length (vectors m1)"
    using e1 by (simp add: extends_def)
  have "cohesion_loop ?me i 0 (drop 0 (swarm_of m)) (load ?m0 ?n) 0 = (load m1 ?n, c)"
    using a i e0 _ _ _ loop by (rule cohesion_loop_m_refines) simp_all
  then have pure: "cohesion_loop ?me i 0 (swarm_of m) zero3 0 = (load m1 ?n, c)"
    by (simp add: load_new_fresh zero3_def)
  show ?thesis
  proof (cases "0 < c")
    case False
    with run loop have "new_Vector3 m1 = (r, m')"
      by (simp add: cohesion_m_def new_Vector3_def)
    then have "load m' r = zero3"
      by (auto simp add: new_Vector3_def load_def zero3_def)
    with False pure show ?thesis
      by (simp add: cohesion_def)
  next
    case True
    define k1 where "k1 = store ?n (divideScalar (load m1 ?n) (real c)) m1"
    from True run loop have sk: "seek_m i ?n k1 = (r, m')"
      by (simp add: cohesion_m_def new_Vector3_def Let_def k1_def)
    have "extends ?n m1 k1"
      unfolding k1_def by (intro extends_store) simp
    with e have e2: "extends ?n m k1"
      by (rule extends_trans)
    have a1: "allocated k1"
      using a e2 by (rule allocated_extends)
    have o1: "objects k1 = objects m"
      using e2 by (simp add: extends_def)
    have sw: "swarm_of k1 = swarm_of m"
      using e2 a by (rule swarm_of_extends)
    have l: "?n < length (vectors k1)"
      using l1 by (simp add: k1_def length_store)
    have v1: "load k1 ?n = divideScalar (load m1 ?n) (real c)"
      unfolding k1_def using l1 by (rule load_store_same)
    from seek_m_refines [OF a1 _ l sk] i
    have "load m' r = seek ?me (divideScalar (load m1 ?n) (real c))"
      by (simp add: o1 sw v1)
    with True pure show ?thesis
      by (simp add: cohesion_def)
  qed
qed

lemma mouseRepel_m_refines:
  assumes a: "allocated m" and i: "i < length (objects m)"
    and mp: "mp < length (vectors m)"
    and run: "mouseRepel_m i mp m = (r, m')"
  shows "load m' r = fst (mouseRepel (swarm_of m ! i) (load m mp))"
    and "swarm_of m' = (swarm_of m)[i := snd (mouseRepel (swarm_of m ! i) (load m mp))]"
proof -
  let ?n = "length (vectors m)"
  let ?me = "swarm_of m ! i"
  let ?d = "distanceTo (position ?me) (load m mp)"
  have pos: "load m (position_at (objects m ! i)) = position ?me"
    using a extends_refl i by (rule field_extends)
  have fresh: "take ?n (vectors m') = vectors m" "?n \<le> length (vectors m')"
    using run by (auto simp add: mouseRepel_m_def new_Vector3_def store_def Let_def split: if_splits)
  have same: "boid_of m' b = boid_of m b" if "b \<in> set (objects m)" for b
  proof -
    have "load m' x = load m x" if "x < ?n" for x
      using that fresh nth_take [of x ?n "vectors m'"] by (simp add: load_def)
    with that a show ?thesis
      by (simp add: boid_of_def allocated_def list_all_iff)
  qed
  show "load m' r = fst (mouseRepel ?me (load m mp))"
  proof (cases "?d < mouseRepelRadius \<and> 0 < ?d")
    case False
    with run have "new_Vector3 m = (r, m')"
      by (auto simp add: mouseRepel_m_def pos Let_def)
    then have "load m' r = zero3"
      by (auto simp add: new_Vector3_def load_def zero3_def)
    with False show ?thesis
      by (auto simp add: mouseRepel_def Let_def)
  next
    case True
    define m0 where "m0 = m\<lparr>objects := (objects m)[i := (objects m ! i)\<lparr>isNearMouse_flag := True\<rparr>],
                             vectors := vectors m @ [Vector3 0 0 0]\<rparr>"
    define k1 where "k1 = store ?n (subVectors (load m0 (position_at (objects m ! i))) (load m0 mp)) m0"
    define k2 where "k2 = store ?n (normalize3 (load k1 ?n)) k1"
    define k3 where "k3 = store ?n (multiplyScalar (load k2 ?n)
                             (mouseRepelStrength * (1 - ?d / mouseRepelRadius))) k2"
    define k4 where "k4 = store ?n (clampLength (load k3 ?n) 0 (maxForce * 4)) k3"
    have len: "length (vectors m0) = Suc ?n" "length (vectors k1) = Suc ?n"
      "length (vectors k2) = Suc ?n" "length (vectors k3) = Suc ?n"
      by (simp_all add: m0_def k1_def k2_def k3_def length_store)
    from True run have r: "r = ?n" and m': "m' = k4"
      by (auto simp add: mouseRepel_m_def new_Vector3_def Let_def pos
          m0_def k1_def k2_def k3_def k4_def)
    have p0: "load m0 (position_at (objects m ! i)) = position ?me"
      using allocated_nth(1) [OF a i] by (simp add: m0_def load_def nth_append flip: pos)
    have q0: "load m0 mp = load m mp"
      using mp by (simp add: m0_def load_def nth_append)
    have v1: "load k1 ?n = subVectors (load m0 (position_at (objects m ! i))) (load m0 mp)"
      unfolding k1_def by (intro load_store_same) (simp add: len)
    have v2: "load k2 ?n = normalize3 (load k1 ?n)"
      unfolding k2_def by (intro load_store_same) (simp add: len)
    have v3: "load k3 ?n = multiplyScalar (load k2 ?n) (mouseRepelStrength * (1 - ?d / mouseRepelRadius))"
      unfolding k3_def by (intro load_store_same) (simp add: len)
    have v4: "load k4 ?n = clampLength (load k3 ?n) 0 (maxForce * 4)"
      unfolding k4_def by (intro load_store_same) (simp add: len)
    have "load m' r = clampLength (multiplyScalar (normalize3 (subVectors (position ?me) (load m mp)))
             (mouseRepelStrength * (1 - ?d / mouseRepelRadius))) 0 (maxForce * 4)"
      by (simp only: r m' v4 v3 v2 v1 p0 q0)
    with True show ?thesis
      by (simp add: mouseRepel_def Let_def)
  qed
  show "swarm_of m' = (swarm_of m)[i := snd (mouseRepel ?me (load m mp))]"
  proof (cases "?d < mouseRepelRadius \<and> 0 < ?d")
    case False
    with run have "objects m' = objects m"
      by (auto simp add: mouseRepel_m_def pos new_Vector3_def Let_def)
    then have "swarm_of m' = swarm_of m"
      using same by (simp add: swarm_of_def)
    moreover from False have "snd (mouseRepel ?me (load m mp)) = ?me"
      by (auto simp add: mouseRepel_def Let_def)
    ultimately show ?thesis
      by simp
  next
    case True
    with run have o: "objects m' = (objects m)[i := (objects m ! i)\<lparr>isNearMouse_flag := True\<rparr>]"
      by (auto simp add: mouseRepel_m_def pos new_Vector3_def store_def Let_def)
    from True have s: "snd (mouseRepel ?me (load m mp)) = ?me\<lparr>isNearMouse := True\<rparr>"
      by (simp add: mouseRepel_def Let_def)
    have fl: "boid_of m' (b\<lparr>isNearMouse_flag := True\<rparr>) = (boid_of m' b)\<lparr>isNearMouse := True\<rparr>" for b
      by (simp add: boid_of_def)
    show ?thesis
      unfolding s
      by (rule nth_equalityI)
        (use i same in \<open>auto simp add: swarm_of_def o nth_list_update fl\<close>)
  qed
qed

lemma seekHome_m_refines:
  assumes a: "allocated m" and i: "i < length (objects m)"
    and run: "seekHome_m i m = (r, m')"
  shows "load m' r = seekHome (swarm_of m ! i)"
proof -
  obtain st m1 where sk: "seek_m i (homePosition_at (objects m ! i)) m = (st, m1)"
    by (cases "seek_m i (homePosition_at (objects m ! i)) m")
  with run have r: "r = st"
    and m': "m' = store st (multiplyScalar (load m1 st) homeAttractionStrength) m1"
    by (auto simp add: seekHome_m_def)
  have h: "homePosition_at (objects m ! i) < length (vectors m)"
    using a i by (rule allocated_nth)
  have "load m1 st = seek (swarm_of m ! i) (load m (homePosition_at (objects m ! i)))"
    using a i h sk by (rule seek_m_refines)
  moreover have "load m (homePosition_at (objects m ! i)) = homePosition (swarm_of m ! i)"
    using i by (simp add: swarm_of_def boid_of_def)
  moreover have "load m' r = multiplyScalar (load m1 st) homeAttractionStrength"
    unfolding r m' using seek_m_result [OF sk] by (rule load_store_same)
  ultimately show ?thesis
    by (simp add: seekHome_def)
qed


section \<open>Further facts about frames, counts and stores\<close>

text \<open>
  The speed bound along a run of frames, the sign of the velocity that \<^verbatim>\<open>update\<close>
  integrates, the count each neighbour loop returns, the agents of a store after
  \<^verbatim>\<open>mouseRepel\<close>, and what every run from \<^verbatim>\<open>init\<close> guarantees of an agent whose
  home is inside the boundary.
\<close>

lemma length3_velocity_new_Boid: "length3 (velocity (new_Boid h r)) \<le> maxSpeed"
  by (simp add: new_Boid_def length3_multiplyScalar length3_normalize3 maxSpeed_def)

lemma velocity_animate_bound:
  "b \<in> set (boids (animate inp s)) \<Longrightarrow> length3 (velocity b) \<le> maxSpeed"
  by (auto simp add: animate_def update_pass_def velocity_update_bound split: prod.splits)

lemma velocity_frames_bound:
  "\<forall>b \<in> set (boids s). length3 (velocity b) \<le> maxSpeed \<Longrightarrow>
     \<forall>b \<in> set (boids (frames inps s)). length3 (velocity b) \<le> maxSpeed"
proof (induction inps arbitrary: s)
  case Nil
  then show ?case by simp
next
  case (Cons inp inps)
  have "\<forall>b \<in> set (boids (animate inp s)). length3 (velocity b) \<le> maxSpeed"
    by (simp add: velocity_animate_bound)
  from Cons.IH [OF this] show ?case by simp
qed

lemma vx_clampLength_pos:
  assumes "0 < vx v" "0 < mx"
  shows "0 < vx (clampLength v 0 mx)"
proof -
  have "length3 v \<noteq> 0"
    using assms(1) by (auto simp add: length3_eq_0_iff zero3_def)
  with length3_nonneg [of v] have l: "0 < length3 v" by simp
  with assms show ?thesis
    by (simp add: clampLength_def Let_def or_one_def divideScalar_def multiplyScalar_def)
qed

lemma vx_velocity_update_pos:
  "0 < vx (velocity b) + vx (acceleration b) \<Longrightarrow> 0 < vx (velocity (update b sc))"
proof -
  assume "0 < vx (velocity b) + vx (acceleration b)"
  then have "0 < vx (add (velocity b) (acceleration b))"
    by (simp add: add_def)
  then have "0 < vx (clampLength (add (velocity b) (acceleration b)) 0 maxSpeed)"
    by (rule vx_clampLength_pos) (simp add: maxSpeed_def)
  then show ?thesis
    by (simp add: update_def Let_def multiplyScalar_def)
qed

lemma separation_loop_counts:
  "snd (separation_loop this i j bs steer count) =
     count + length (filter (\<lambda>(k, other). k \<noteq> i \<and> neighbour this separationRadius other)
                       (enumerate j bs))"
  by (induction bs arbitrary: j steer count) (auto simp add: neighbour_def Let_def)

lemma alignment_loop_counts:
  "snd (alignment_loop this i j bs a count) =
     count + length (filter (\<lambda>(k, other). k \<noteq> i \<and> neighbour this alignmentRadius other)
                       (enumerate j bs))"
  by (induction bs arbitrary: j a count) (auto simp add: neighbour_def Let_def)

lemma cohesion_loop_counts:
  "snd (cohesion_loop this i j bs c count) =
     count + length (filter (\<lambda>(k, other). k \<noteq> i \<and> neighbour this cohesionRadius other)
                       (enumerate j bs))"
  by (induction bs arbitrary: j c count) (auto simp add: neighbour_def Let_def)

lemma extends_snd:
  assumes "\<And>r m'. f = (r, m') \<Longrightarrow> extends n m m'"
  shows "extends n m (snd f)"
  using assms [of "fst f" "snd f"] by simp

lemma extends_frame:
  "extends (length (vectors m)) m m' \<Longrightarrow>
     take (length (vectors m)) (vectors m') = vectors m \<and> objects m' = objects m"
  by (simp add: extends_def)

lemma swarm_of_mouseRepel_m:
  assumes "allocated m"
  shows "swarm_of (snd (mouseRepel_m i mp m)) = swarm_of m \<or>
         swarm_of (snd (mouseRepel_m i mp m)) =
           (swarm_of m)[i := (swarm_of m ! i)\<lparr>isNearMouse := True\<rparr>]"
proof -
  obtain r m' where run: "mouseRepel_m i mp m = (r, m')"
    by (cases "mouseRepel_m i mp m")
  let ?n = "length (vectors m)"
  have fresh: "take ?n (vectors m') = vectors m"
    using run by (rule mouseRepel_m_frame)
  have ld: "load m' x = load m x" if "x < ?n" for x
    using that fresh nth_take [of x ?n "vectors m'"] by (simp add: load_def)
  have same: "boid_of m' b = boid_of m b" if "b \<in> set (objects m)" for b
    using that assms ld by (simp add: boid_of_def allocated_def list_all_iff)
  have fl: "boid_of m' (b\<lparr>isNearMouse_flag := True\<rparr>) = (boid_of m' b)\<lparr>isNearMouse := True\<rparr>" for b
    by (simp add: boid_of_def)
  from mouseRepel_m_frame(3) [OF run]
  have "swarm_of m' = swarm_of m \<or>
        swarm_of m' = (swarm_of m)[i := (swarm_of m ! i)\<lparr>isNearMouse := True\<rparr>]"
  proof
    assume "objects m' = objects m"
    then have "swarm_of m' = swarm_of m"
      using same by (simp add: swarm_of_def)
    then show ?thesis ..
  next
    assume o: "objects m' = (objects m)[i := (objects m ! i)\<lparr>isNearMouse_flag := True\<rparr>]"
    have "swarm_of m' = (swarm_of m)[i := (swarm_of m ! i)\<lparr>isNearMouse := True\<rparr>]"
    proof (cases "i < length (objects m)")
      case True
      then show ?thesis
        by (intro nth_equalityI) (use same in \<open>auto simp add: swarm_of_def o nth_list_update fl\<close>)
    next
      case False
      then have "length (objects m) \<le> i"
        by simp
      then show ?thesis
        using same by (simp add: swarm_of_def o list_update_beyond)
    qed
    then show ?thesis ..
  qed
  with run show ?thesis by simp
qed

lemma in_box_wrapEdges: "in_box (wrapEdges p)"
  by (auto simp add: wrapEdges_eq in_box_def boundarySize_def abs_le_iff)

lemma homePosition_flock: "homePosition (flock this i bs mp ma sc) = homePosition this"
  by (cases sc) (simp_all add: flock_scattered_fields flock_formed Let_def)

lemma animate_boid:
  assumes "i < length (boids s)"
  shows "boids (animate inp s) ! i =
           update (flock (boids s ! i) i (boids s) (mousePos inp) (mouseActive inp)
                     (isScattered (animate inp s)))
             (isScattered (animate inp s))"
proof -
  obtain sc t where m: "manage_timer (check_collision inp (boids s) (isScattered s, scatterTimer s)) = (sc, t)"
    by (cases "manage_timer (check_collision inp (boids s) (isScattered s, scatterTimer s))")
  then have sc: "isScattered (animate inp s) = sc"
    by (simp add: animate_def)
  have "flock_pass (mousePos inp) (mouseActive inp) sc (boids s) ! i =
          flock (boids s ! i) i (boids s) (mousePos inp) (mouseActive inp) sc"
    using assms by (cases sc) (simp_all add: flock_pass_scattered flock_pass_formed)
  with assms m show ?thesis
    unfolding sc by (simp add: animate_def update_pass_def flock_pass_def length_flock_prefix)
qed

lemma animate_keeps_rest:
  assumes "i < length (boids s)" and "in_box (homePosition (boids s ! i))"
  shows "i < length (boids (animate inp s)) \<and>
         in_box (position (boids (animate inp s) ! i)) \<and>
         in_box (homePosition (boids (animate inp s) ! i)) \<and>
         acceleration (boids (animate inp s) ! i) = zero3"
  using assms
  by (simp add: length_boids_animate animate_boid position_update in_box_wrapEdges
      homePosition_update homePosition_flock acceleration_update)

lemma frames_keep_rest:
  assumes "i < length (boids s)" and "in_box (position (boids s ! i))"
    and "in_box (homePosition (boids s ! i))" and "acceleration (boids s ! i) = zero3"
  shows "i < length (boids (frames inps s)) \<and>
         in_box (position (boids (frames inps s) ! i)) \<and>
         in_box (homePosition (boids (frames inps s) ! i)) \<and>
         acceleration (boids (frames inps s) ! i) = zero3"
  using assms
proof (induction inps arbitrary: s)
  case Nil
  then show ?case by simp
next
  case (Cons inp inps)
  from animate_keeps_rest [OF Cons.prems(1,3), of inp] Cons.IH [of "animate inp s"]
  show ?case by simp
qed

lemma init_at_rest:
  assumes "list_all in_box textPositions" and "i < length textPositions" and "i < length rs"
  shows "i < length (boids (init textPositions rs)) \<and>
         in_box (position (boids (init textPositions rs) ! i)) \<and>
         in_box (homePosition (boids (init textPositions rs) ! i)) \<and>
         acceleration (boids (init textPositions rs) ! i) = zero3"
  using assms by (simp add: init_def new_Boid_def list_all_length)

lemma reachable_settling:
  assumes "list_all in_box textPositions" and "i < length textPositions" and "i < length rs"
    and "\<not> isScattered (frames inps0 (init textPositions rs))"
  shows "settling (frames inps0 (init textPositions rs)) i"
proof -
  from init_at_rest [OF assms(1,2,3)]
  have "i < length (boids (frames inps0 (init textPositions rs))) \<and>
         in_box (position (boids (frames inps0 (init textPositions rs)) ! i)) \<and>
         in_box (homePosition (boids (frames inps0 (init textPositions rs)) ! i)) \<and>
         acceleration (boids (frames inps0 (init textPositions rs)) ! i) = zero3"
    by (intro frames_keep_rest) simp_all
  with assms(4) show ?thesis
    by (simp add: settling_def)
qed

lemma quiet_run_inactive:
  "list_all (\<lambda>inp. \<not> mouseActive inp) inps \<Longrightarrow> quiet_run inps s"
  by (induction inps arbitrary: s) (simp_all add: triggers_def)


section \<open>The claims\<close>

text \<open>
  Each claim about the flocking engine is stated below over the definitions above, with a
  concrete instance where the statement has hypotheses, and with a concrete failing
  instance where the claim as worded does not hold of the program.
\<close>

subsection \<open>C1: the speed bound\<close>

text \<open>
  Claim C1. After \<^verbatim>\<open>Boid.update\<close> the magnitude of an agent's velocity is at most
  \<^verbatim>\<open>maxSpeed\<close>, whatever the agent and the mode were: the clamp that follows the addition
  of the acceleration establishes the bound, damping only shrinks the vector, and
  integration and wrapping do not touch it. Hence the bound holds for every agent of every
  state the swarm reaches from \<^verbatim>\<open>init\<close> by any number of frames under any pointer
  input, the initial state included. The bound is exact here because numbers are reals.
\<close>

theorem velocity_bounded:
  "length3 (velocity (update b sc)) \<le> maxSpeed \<and>
   (\<forall>a \<in> set (boids (frames inps (init textPositions rs))). length3 (velocity a) \<le> maxSpeed)"
proof
  show "length3 (velocity (update b sc)) \<le> maxSpeed"
    by (rule velocity_update_bound)
  have "\<forall>a \<in> set (boids (init textPositions rs)). length3 (velocity a) \<le> maxSpeed"
    by (auto simp add: init_def length3_velocity_new_Boid)
  then show "\<forall>a \<in> set (boids (frames inps (init textPositions rs))). length3 (velocity a) \<le> maxSpeed"
    by (rule velocity_frames_bound)
qed

text \<open>C1 at a concrete swarm: one agent, one frame with the pointer inactive.\<close>

theorem velocity_bounded_witness:
  "length3 (velocity (boids (frames [\<lparr>mousePos = Vector3 0 0 0, mouseActive = False\<rparr>]
      (init [Vector3 10 0 0] [Vector3 1 0 0])) ! 0)) \<le> maxSpeed"
proof -
  let ?s = "frames [\<lparr>mousePos = Vector3 0 0 0, mouseActive = False\<rparr>]
      (init [Vector3 10 0 0] [Vector3 1 0 0])"
  have "length (boids ?s) = 1"
    by (simp add: length_boids_animate init_def)
  then have "boids ?s ! 0 \<in> set (boids ?s)"
    by simp
  with velocity_bounded [of _ _ "[\<lparr>mousePos = Vector3 0 0 0, mouseActive = False\<rparr>]"
      "[Vector3 10 0 0]" "[Vector3 1 0 0]"]
  show ?thesis by blast
qed

subsection \<open>C2: the size of each steering contribution\<close>

text \<open>
  Claim C2 bounds each contribution, as applied after its weight, by \<^verbatim>\<open>maxForce\<close>.
  It fails for separation, whose weight is 1.5: an agent at rest at the origin with one
  neighbour at distance 10 receives a separation contribution of magnitude 0.075, above
  \<^verbatim>\<open>maxForce\<close> = 0.05.
\<close>

theorem steering_weighted_counterexample:
  "\<not> length3 (multiplyScalar
        (separation
           \<lparr>homePosition = Vector3 0 0 0, position = Vector3 0 0 0, velocity = Vector3 0 0 0,
            acceleration = Vector3 0 0 0, isNearMouse = False\<rparr>
           0
           [\<lparr>homePosition = Vector3 0 0 0, position = Vector3 0 0 0, velocity = Vector3 0 0 0,
             acceleration = Vector3 0 0 0, isNearMouse = False\<rparr>,
            \<lparr>homePosition = Vector3 10 0 0, position = Vector3 10 0 0, velocity = Vector3 0 0 0,
             acceleration = Vector3 0 0 0, isNearMouse = False\<rparr>])
        separationWeight) \<le> maxForce"
  by (simp add: separation_def vec_simps config_simps)

text \<open>
  Claim C2, amended. The vectors that \<^verbatim>\<open>separation\<close>, \<^verbatim>\<open>alignment\<close>,
  \<^verbatim>\<open>cohesion\<close> and \<^verbatim>\<open>seek\<close> return have magnitude at most \<^verbatim>\<open>maxForce\<close>.
  The contributions \<^verbatim>\<open>flock\<close> adds to the acceleration are these vectors times their
  weights, so each is bounded by its weight times \<^verbatim>\<open>maxForce\<close>: 1.5 \<open>\<times>\<close>
  \<^verbatim>\<open>maxForce\<close> for separation, \<^verbatim>\<open>maxForce\<close> for alignment and cohesion, whose
  weights are 1. The mouse repulsion has magnitude at most 4 \<open>\<times>\<close> \<^verbatim>\<open>maxForce\<close>.
\<close>

theorem steering_bounds:
  "length3 (separation this i bs) \<le> maxForce \<and>
   length3 (alignment this i bs) \<le> maxForce \<and>
   length3 (cohesion this i bs) \<le> maxForce \<and>
   length3 (seek this target) \<le> maxForce \<and>
   length3 (multiplyScalar (separation this i bs) separationWeight) \<le> separationWeight * maxForce \<and>
   length3 (multiplyScalar (alignment this i bs) alignmentWeight) \<le> maxForce \<and>
   length3 (multiplyScalar (cohesion this i bs) cohesionWeight) \<le> maxForce \<and>
   length3 (fst (mouseRepel this mp)) \<le> 4 * maxForce"
  using length3_separation [of this i bs] length3_alignment [of this i bs]
    length3_cohesion [of this i bs] length3_seek [of this target] length3_mouseRepel [of this mp]
  by (simp add: length3_multiplyScalar separationWeight_def alignmentWeight_def cohesionWeight_def)

subsection \<open>C3: what the flock pass mutates\<close>

text \<open>
  Claim C3 says that the first pass leaves every position and velocity unchanged. In
  Formed mode it does not: \<^verbatim>\<open>flock\<close> itself zeroes the velocity and moves the position.
  One agent at (10, 0, 0) with home at the origin is at (9, 0, 0) after the flock pass.
\<close>

theorem flock_pass_mutates_counterexample:
  "map position (flock_pass (Vector3 0 0 0) False False
      [\<lparr>homePosition = Vector3 0 0 0, position = Vector3 10 0 0, velocity = Vector3 1 0 0,
        acceleration = Vector3 0 0 0, isNearMouse = False\<rparr>])
   \<noteq> map position
      [\<lparr>homePosition = Vector3 0 0 0, position = Vector3 10 0 0, velocity = Vector3 1 0 0,
        acceleration = Vector3 0 0 0, isNearMouse = False\<rparr>]"
  by (simp add: flock_pass_def flock_at_def flock_formed lerp_def)

text \<open>
  Claim C3, amended. In Scattered mode the flock pass computes every agent's steering
  from the array as it was when the pass began (running the calls one after the other on
  the live array gives the same as running each on that snapshot), and it leaves every
  position and velocity unchanged, so these are mutated in the update pass only. In Formed
  mode the flock pass itself sets every velocity to zero and moves every position one
  tenth of the way to its home.
\<close>

theorem flock_pass_snapshot:
  "flock_pass mp ma True bs = map (\<lambda>j. flock (bs ! j) j bs mp ma True) [0 ..< length bs] \<and>
   map position (flock_pass mp ma True bs) = map position bs \<and>
   map velocity (flock_pass mp ma True bs) = map velocity bs \<and>
   map position (flock_pass mp ma False bs) =
     map (\<lambda>b. lerp (position b) (homePosition b) (1 / 10)) bs \<and>
   map velocity (flock_pass mp ma False bs) = map (\<lambda>b. Vector3 0 0 0) bs"
proof (intro conjI)
  show "flock_pass mp ma True bs = map (\<lambda>j. flock (bs ! j) j bs mp ma True) [0 ..< length bs]"
    by (rule flock_pass_scattered)
  show "map position (flock_pass mp ma True bs) = map position bs"
    by (rule nth_equalityI) (simp_all add: flock_pass_scattered flock_scattered_fields)
  show "map velocity (flock_pass mp ma True bs) = map velocity bs"
    by (rule nth_equalityI) (simp_all add: flock_pass_scattered flock_scattered_fields)
  show "map position (flock_pass mp ma False bs) =
     map (\<lambda>b. lerp (position b) (homePosition b) (1 / 10)) bs"
    by (rule nth_equalityI) (simp_all add: flock_pass_formed flock_formed Let_def)
  show "map velocity (flock_pass mp ma False bs) = map (\<lambda>b. Vector3 0 0 0) bs"
    by (rule nth_equalityI) (simp_all add: flock_pass_formed flock_formed Let_def)
qed

subsection \<open>C4: the mode controller\<close>

text \<open>
  Claim C4. The mode starts Formed with the timer at zero. Each frame first runs the
  collision check and the timer step, and both passes over the swarm then run in the mode
  so decided. The check sets the mode to Scattered and the timer to
  \<^verbatim>\<open>SCATTER_DURATION\<close> exactly when the pointer is active and some agent is closer than
  30 to it, and otherwise changes nothing. After a triggering frame, taken from any state
  (so also from a Scattered one, whatever its timer was), and \<open>n\<close> further frames without
  trigger, the mode is Scattered if and only if \<open>n < SCATTER_DURATION\<close>: the triggering
  frame and the \<open>SCATTER_DURATION - 1\<close> frames after it run Scattered, which is
  \<^verbatim>\<open>SCATTER_DURATION\<close> frames, and the next one runs Formed. The timer after those
  frames is \<open>SCATTER_DURATION - 1 - n\<close>, independent of the timer before the trigger.
\<close>

theorem mode_controller:
  "isScattered (init textPositions rs) = False \<and>
   scatterTimer (init textPositions rs) = 0 \<and>
   (isScattered (animate inp s), scatterTimer (animate inp s)) =
     manage_timer (check_collision inp (boids s) (isScattered s, scatterTimer s)) \<and>
   boids (animate inp s) =
     update_pass (isScattered (animate inp s))
       (flock_pass (mousePos inp) (mouseActive inp) (isScattered (animate inp s)) (boids s)) \<and>
   check_collision inp (boids s) m =
     (if triggers inp (boids s) then (True, SCATTER_DURATION) else m) \<and>
   (triggers inp (boids s) \<and> quiet_run inps (animate inp s) \<longrightarrow>
      isScattered (frames inps (animate inp s)) = (length inps < SCATTER_DURATION) \<and>
      scatterTimer (frames inps (animate inp s)) = SCATTER_DURATION - 1 - length inps)"
proof (intro conjI impI)
  show "isScattered (init textPositions rs) = False" "scatterTimer (init textPositions rs) = 0"
    by (simp_all add: init_def)
  show "(isScattered (animate inp s), scatterTimer (animate inp s)) =
     manage_timer (check_collision inp (boids s) (isScattered s, scatterTimer s))"
    by (rule mode_animate)
  show "boids (animate inp s) =
     update_pass (isScattered (animate inp s))
       (flock_pass (mousePos inp) (mouseActive inp) (isScattered (animate inp s)) (boids s))"
    by (simp add: animate_def split: prod.splits)
  show "check_collision inp (boids s) m =
     (if triggers inp (boids s) then (True, SCATTER_DURATION) else m)"
    by (rule check_collision_eq)
next
  assume h: "triggers inp (boids s) \<and> quiet_run inps (animate inp s)"
  then have t: "isScattered (animate inp s)" "scatterTimer (animate inp s) = SCATTER_DURATION - 1"
    by (simp_all add: animate_trigger)
  from h have q: "quiet_run inps (animate inp s)" by simp
  from frames_quiet [OF q t(1)] t(2)
  show "isScattered (frames inps (animate inp s)) = (length inps < SCATTER_DURATION)"
    and "scatterTimer (frames inps (animate inp s)) = SCATTER_DURATION - 1 - length inps"
    by (auto simp add: SCATTER_DURATION_def)
qed

text \<open>C4 at a concrete run: an agent under the active pointer, then one frame without pointer.\<close>

theorem mode_controller_witness:
  "triggers \<lparr>mousePos = Vector3 0 0 0, mouseActive = True\<rparr>
     (boids (init [Vector3 0 0 0] [Vector3 1 0 0])) \<and>
   quiet_run [\<lparr>mousePos = Vector3 0 0 0, mouseActive = False\<rparr>]
     (animate \<lparr>mousePos = Vector3 0 0 0, mouseActive = True\<rparr>
        (init [Vector3 0 0 0] [Vector3 1 0 0])) \<and>
   isScattered (frames [\<lparr>mousePos = Vector3 0 0 0, mouseActive = False\<rparr>]
     (animate \<lparr>mousePos = Vector3 0 0 0, mouseActive = True\<rparr>
        (init [Vector3 0 0 0] [Vector3 1 0 0]))) \<and>
   scatterTimer (frames [\<lparr>mousePos = Vector3 0 0 0, mouseActive = False\<rparr>]
     (animate \<lparr>mousePos = Vector3 0 0 0, mouseActive = True\<rparr>
        (init [Vector3 0 0 0] [Vector3 1 0 0]))) = 178"
proof -
  have t: "triggers \<lparr>mousePos = Vector3 0 0 0, mouseActive = True\<rparr>
     (boids (init [Vector3 0 0 0] [Vector3 1 0 0]))"
    by (simp add: triggers_def init_def new_Boid_def distanceTo_def distanceToSquared_def)
  have q: "quiet_run [\<lparr>mousePos = Vector3 0 0 0, mouseActive = False\<rparr>]
     (animate \<lparr>mousePos = Vector3 0 0 0, mouseActive = True\<rparr>
        (init [Vector3 0 0 0] [Vector3 1 0 0]))"
    by (simp add: triggers_def)
  from t q mode_controller [of "[Vector3 0 0 0]" "[Vector3 1 0 0]"
      "\<lparr>mousePos = Vector3 0 0 0, mouseActive = True\<rparr>" "init [Vector3 0 0 0] [Vector3 1 0 0]"
      "(False, 0)" "[\<lparr>mousePos = Vector3 0 0 0, mouseActive = False\<rparr>]"]
  show ?thesis
    by (simp add: SCATTER_DURATION_def)
qed

subsection \<open>C5: the flock step by mode\<close>

text \<open>
  Claim C5. In Formed mode \<^verbatim>\<open>flock\<close> sets the velocity to zero, moves the position to
  its interpolation toward the home position with factor 0.1, and adds to the acceleration
  nothing but the mouse repulsion, computed at the moved position, when the pointer is
  active. In Scattered mode it leaves position and velocity alone and adds to the
  acceleration the sum of the weighted separation, alignment and cohesion vectors and, when
  the pointer is active, the mouse repulsion.
\<close>

theorem flock_by_mode:
  "flock this i bs mp ma False =
     (let moved = this\<lparr>velocity := Vector3 0 0 0,
                        position := lerp (position this) (homePosition this) (1 / 10)\<rparr>;
          mouseForce = (if ma then fst (mouseRepel moved mp) else zero3)
      in moved\<lparr>acceleration := add (acceleration this) mouseForce,
                isNearMouse := (if ma then isNearMouse (snd (mouseRepel moved mp))
                                else isNearMouse this)\<rparr>) \<and>
   flock this i bs mp ma True =
     (let sep = multiplyScalar (separation this i bs) separationWeight;
          ali = multiplyScalar (alignment this i bs) alignmentWeight;
          coh = multiplyScalar (cohesion this i bs) cohesionWeight;
          mouseForce = (if ma then fst (mouseRepel this mp) else zero3)
      in this\<lparr>acceleration := add (acceleration this) (add (add (add sep ali) coh) mouseForce),
               isNearMouse := (if ma then isNearMouse (snd (mouseRepel this mp))
                               else isNearMouse this)\<rparr>)"
  using flock_formed [of this i bs mp ma] flock_scattered [of this i bs mp ma]
  by simp

subsection \<open>C6: mouse repulsion\<close>

text \<open>
  Claim C6. With \<open>d\<close> the distance from the agent to the pointer: if \<open>0 < d\<close> and
  \<open>d\<close> is less than \<^verbatim>\<open>mouseRepelRadius\<close>, \<^verbatim>\<open>mouseRepel\<close> returns the unit vector
  from the pointer to the agent scaled by the minimum of
  \<^verbatim>\<open>mouseRepelStrength * (1 - d / mouseRepelRadius)\<close> and 4 \<open>\<times>\<close> \<^verbatim>\<open>maxForce\<close>, a
  positive number that is the magnitude of the result, and sets \<^verbatim>\<open>isNearMouse\<close>;
  otherwise it returns the zero vector and leaves the agent as it was.
\<close>

theorem mouseRepel_falloff:
  "(let d = distanceTo (position this) mp;
        n = normalize3 (subVectors (position this) mp);
        mag = min (mouseRepelStrength * (1 - d / mouseRepelRadius)) (4 * maxForce)
    in if 0 < d \<and> d < mouseRepelRadius
       then mouseRepel this mp = (multiplyScalar n mag, this\<lparr>isNearMouse := True\<rparr>) \<and>
            length3 n = 1 \<and> 0 < mag \<and> length3 (fst (mouseRepel this mp)) = mag
       else mouseRepel this mp = (zero3, this))"
proof (cases "0 < distanceTo (position this) mp \<and> distanceTo (position this) mp < mouseRepelRadius")
  case False
  then show ?thesis
    using mouseRepel_eq [of this mp] by (auto simp add: Let_def)
next
  case True
  let ?d = "distanceTo (position this) mp"
  let ?n = "normalize3 (subVectors (position this) mp)"
  let ?mag = "min (mouseRepelStrength * (1 - ?d / mouseRepelRadius)) (4 * maxForce)"
  from True have n: "length3 ?n = 1"
    by (simp add: length3_normalize3 flip: distanceTo_subVectors)
  from True have "0 < mouseRepelStrength * (1 - ?d / mouseRepelRadius)"
    by (simp add: mouseRepelStrength_def mouseRepelRadius_def)
  then have mag: "0 < ?mag"
    by (simp add: maxForce_def)
  from True have eq: "mouseRepel this mp = (multiplyScalar ?n ?mag, this\<lparr>isNearMouse := True\<rparr>)"
    using mouseRepel_eq [of this mp] by (simp add: Let_def)
  have "length3 (fst (mouseRepel this mp)) = ?mag"
    using n mag by (simp add: eq length3_multiplyScalar)
  with True n mag eq show ?thesis
    by (simp add: Let_def)
qed

text \<open>
  C6 at two concrete agents: one at distance 10 from the pointer, where the clamp to
  4 \<open>\<times>\<close> \<^verbatim>\<open>maxForce\<close> decides the magnitude, and one at distance 60, outside the radius.
\<close>

theorem mouseRepel_falloff_witness:
  "mouseRepel
     \<lparr>homePosition = Vector3 0 0 0, position = Vector3 10 0 0, velocity = Vector3 0 0 0,
      acceleration = Vector3 0 0 0, isNearMouse = False\<rparr> (Vector3 0 0 0) =
     (Vector3 (1 / 5) 0 0,
      \<lparr>homePosition = Vector3 0 0 0, position = Vector3 10 0 0, velocity = Vector3 0 0 0,
       acceleration = Vector3 0 0 0, isNearMouse = True\<rparr>) \<and>
   mouseRepel
     \<lparr>homePosition = Vector3 0 0 0, position = Vector3 60 0 0, velocity = Vector3 0 0 0,
      acceleration = Vector3 0 0 0, isNearMouse = False\<rparr> (Vector3 0 0 0) =
     (Vector3 0 0 0,
      \<lparr>homePosition = Vector3 0 0 0, position = Vector3 60 0 0, velocity = Vector3 0 0 0,
       acceleration = Vector3 0 0 0, isNearMouse = False\<rparr>)"
proof -
  let ?a = "\<lparr>homePosition = Vector3 0 0 0, position = Vector3 10 0 0, velocity = Vector3 0 0 0,
      acceleration = Vector3 0 0 0, isNearMouse = False\<rparr>"
  let ?b = "\<lparr>homePosition = Vector3 0 0 0, position = Vector3 60 0 0, velocity = Vector3 0 0 0,
      acceleration = Vector3 0 0 0, isNearMouse = False\<rparr>"
  have d: "distanceTo (Vector3 10 0 0) (Vector3 0 0 0) = 10"
    "distanceTo (Vector3 60 0 0) (Vector3 0 0 0) = 60"
    by (simp_all add: distanceTo_subVectors subVectors_def length3_x_axis)
  have n: "normalize3 (subVectors (Vector3 10 0 0) (Vector3 0 0 0)) = Vector3 1 0 0"
    by (simp add: subVectors_def normalize3_def length3_x_axis or_one_def divideScalar_def
        multiplyScalar_def)
  from mouseRepel_falloff [of ?a "Vector3 0 0 0"] mouseRepel_falloff [of ?b "Vector3 0 0 0"]
  show ?thesis
    by (simp add: d n multiplyScalar_def zero3_def mouseRepelRadius_def mouseRepelStrength_def
        maxForce_def)
qed

subsection \<open>C7: convergence in Formed mode\<close>

text \<open>
  Claim C7. Take any state the swarm reaches from \<^verbatim>\<open>init\<close>, by any frames under any
  pointer input, when the text positions lie inside the wrap boundary, and an agent of it,
  wherever the frames so far have carried it. If the mode is Formed in that state and the
  pointer is inactive in the frames that follow, then every such frame multiplies the
  agent's distance to its home by 0.9: the distance never increases, and after \<open>n\<close>
  frames it is \<open>0.9 ^ n\<close> times what it was. The agent's velocity is zero after every
  such frame. The run so far matters only through three facts it guarantees: the position
  is inside the boundary, because every frame ends with the wrap; the home is where the
  constructor put it; and the acceleration is zero, because every frame resets it.
\<close>

theorem formed_convergence:
  assumes "list_all in_box textPositions" and "i < length textPositions" and "i < length rs"
    and "\<not> isScattered (frames inps0 (init textPositions rs))"
    and "list_all (\<lambda>inp. \<not> mouseActive inp) (inps @ [inp])"
  shows "homeDistance (boids (animate inp (frames inps (frames inps0 (init textPositions rs)))) ! i) =
           9 / 10 * homeDistance (boids (frames inps (frames inps0 (init textPositions rs))) ! i) \<and>
         homeDistance (boids (animate inp (frames inps (frames inps0 (init textPositions rs)))) ! i) \<le>
           homeDistance (boids (frames inps (frames inps0 (init textPositions rs))) ! i) \<and>
         homeDistance (boids (frames inps (frames inps0 (init textPositions rs))) ! i) =
           (9 / 10) ^ length inps * homeDistance (boids (frames inps0 (init textPositions rs)) ! i) \<and>
         velocity (boids (animate inp (frames inps (frames inps0 (init textPositions rs)))) ! i) = zero3"
proof -
  let ?s = "frames inps0 (init textPositions rs)"
  have s: "settling ?s i"
    using assms(1-4) by (rule reachable_settling)
  from assms(5) have q: "list_all (\<lambda>inp. \<not> mouseActive inp) inps" and p: "\<not> mouseActive inp"
    by simp_all
  have st: "settling (frames inps ?s) i"
    using q s by (rule frames_settling)
  have d: "homeDistance (boids (frames inps ?s) ! i) = (9 / 10) ^ length inps * homeDistance (boids ?s ! i)"
    using q s by (rule frames_settling)
  have b: "boids (animate inp (frames inps ?s)) ! i =
      (boids (frames inps ?s) ! i)\<lparr>velocity := zero3,
         position := lerp (position (boids (frames inps ?s) ! i))
                       (homePosition (boids (frames inps ?s) ! i)) (1 / 10),
         isNearMouse := False\<rparr>"
    using p st by (rule animate_settling)
  have e: "homeDistance (boids (animate inp (frames inps ?s)) ! i) =
           9 / 10 * homeDistance (boids (frames inps ?s) ! i)"
    by (simp add: b homeDistance_def distanceTo_lerp)
  have "0 \<le> homeDistance (boids (frames inps ?s) ! i)"
    by (simp add: homeDistance_def distanceTo_subVectors length3_nonneg)
  with e have m: "homeDistance (boids (animate inp (frames inps ?s)) ! i) \<le>
           homeDistance (boids (frames inps ?s) ! i)"
    by simp
  have v: "velocity (boids (animate inp (frames inps ?s)) ! i) = zero3"
    by (simp add: b)
  from e m d v show ?thesis
    by (intro conjI)
qed

text \<open>
  C7 at a concrete run: one agent is scattered by the pointer, flies for the 180 Scattered
  frames, and then approaches its home again in the first Formed frame.
\<close>

theorem formed_convergence_witness:
  "list_all in_box [Vector3 10 0 0] \<and>
   \<not> isScattered
       (frames (\<lparr>mousePos = Vector3 10 0 0, mouseActive = True\<rparr> #
                replicate 180 \<lparr>mousePos = Vector3 0 0 0, mouseActive = False\<rparr>)
          (init [Vector3 10 0 0] [Vector3 1 0 0])) \<and>
   list_all (\<lambda>inp. \<not> mouseActive inp) ([] @ [\<lparr>mousePos = Vector3 0 0 0, mouseActive = False\<rparr>]) \<and>
   homeDistance
     (boids (animate \<lparr>mousePos = Vector3 0 0 0, mouseActive = False\<rparr>
        (frames (\<lparr>mousePos = Vector3 10 0 0, mouseActive = True\<rparr> #
                 replicate 180 \<lparr>mousePos = Vector3 0 0 0, mouseActive = False\<rparr>)
           (init [Vector3 10 0 0] [Vector3 1 0 0]))) ! 0) =
     9 / 10 *
     homeDistance
       (boids (frames (\<lparr>mousePos = Vector3 10 0 0, mouseActive = True\<rparr> #
                       replicate 180 \<lparr>mousePos = Vector3 0 0 0, mouseActive = False\<rparr>)
                 (init [Vector3 10 0 0] [Vector3 1 0 0])) ! 0)"
proof -
  let ?p = "\<lparr>mousePos = Vector3 10 0 0, mouseActive = True\<rparr>"
  let ?q = "\<lparr>mousePos = Vector3 0 0 0, mouseActive = False\<rparr>"
  let ?s0 = "init [Vector3 10 0 0] [Vector3 1 0 0]"
  have box: "list_all in_box [Vector3 10 0 0]"
    by (simp add: in_box_def boundarySize_def)
  have "triggers ?p (boids ?s0)"
    by (simp add: triggers_def init_def new_Boid_def distanceTo_def distanceToSquared_def)
  then have t: "isScattered (animate ?p ?s0)" "scatterTimer (animate ?p ?s0) = 179"
    by (simp_all add: animate_trigger SCATTER_DURATION_def)
  have "quiet_run (replicate 180 ?q) (animate ?p ?s0)"
    by (rule quiet_run_inactive) (simp add: list_all_iff)
  from frames_quiet [OF this t(1)] t(2)
  have formed: "\<not> isScattered (frames (?p # replicate 180 ?q) ?s0)"
    by simp
  have q: "list_all (\<lambda>inp. \<not> mouseActive inp) ([] @ [?q])"
    by simp
  from formed_convergence [OF box _ _ formed q, of 0] box formed q show ?thesis
    by simp
qed

subsection \<open>C8: the boundary wrap\<close>

text \<open>
  Claim C8. \<^verbatim>\<open>wrapEdges\<close> treats each axis on its own: a coordinate above
  \<^verbatim>\<open>boundarySize\<close> becomes \<^verbatim>\<open>-boundarySize\<close>, one below \<^verbatim>\<open>-boundarySize\<close> becomes
  \<^verbatim>\<open>boundarySize\<close>, any other stays. \<^verbatim>\<open>update\<close> applies it to the position after
  adding the velocity. In particular an agent whose x coordinate is \<^verbatim>\<open>boundarySize\<close>
  and whose velocity plus acceleration points outward in x has x coordinate
  \<^verbatim>\<open>-boundarySize\<close> after the update.
\<close>

theorem wrap_teleports:
  "wrapEdges p =
     Vector3
       (if vx p > boundarySize then - boundarySize
        else if vx p < - boundarySize then boundarySize else vx p)
       (if vy p > boundarySize then - boundarySize
        else if vy p < - boundarySize then boundarySize else vy p)
       (if vz p > boundarySize then - boundarySize
        else if vz p < - boundarySize then boundarySize else vz p) \<and>
   position (update b sc) = wrapEdges (add (position b) (velocity (update b sc))) \<and>
   (vx (position b) = boundarySize \<and> 0 < vx (velocity b) + vx (acceleration b) \<longrightarrow>
      vx (position (update b sc)) = - boundarySize)"
proof (intro conjI impI)
  show "wrapEdges p =
     Vector3
       (if vx p > boundarySize then - boundarySize
        else if vx p < - boundarySize then boundarySize else vx p)
       (if vy p > boundarySize then - boundarySize
        else if vy p < - boundarySize then boundarySize else vy p)
       (if vz p > boundarySize then - boundarySize
        else if vz p < - boundarySize then boundarySize else vz p)"
    by (rule wrapEdges_eq)
  show "position (update b sc) = wrapEdges (add (position b) (velocity (update b sc)))"
    by (rule position_update)
next
  assume h: "vx (position b) = boundarySize \<and> 0 < vx (velocity b) + vx (acceleration b)"
  then have "0 < vx (velocity (update b sc))"
    by (simp add: vx_velocity_update_pos)
  with h have "boundarySize < vx (add (position b) (velocity (update b sc)))"
    by (simp add: add_def)
  then show "vx (position (update b sc)) = - boundarySize"
    by (simp add: position_update wrapEdges_eq)
qed

text \<open>C8 at a concrete agent on the boundary, moving outward.\<close>

theorem wrap_teleports_witness:
  "vx (position \<lparr>homePosition = Vector3 0 0 0, position = Vector3 300 0 0,
                  velocity = Vector3 1 0 0, acceleration = Vector3 0 0 0,
                  isNearMouse = False\<rparr>) = boundarySize \<and>
   0 < vx (velocity \<lparr>homePosition = Vector3 0 0 0, position = Vector3 300 0 0,
                      velocity = Vector3 1 0 0, acceleration = Vector3 0 0 0,
                      isNearMouse = False\<rparr>)
     + vx (acceleration \<lparr>homePosition = Vector3 0 0 0, position = Vector3 300 0 0,
                      velocity = Vector3 1 0 0, acceleration = Vector3 0 0 0,
                      isNearMouse = False\<rparr>) \<and>
   vx (position (update \<lparr>homePosition = Vector3 0 0 0, position = Vector3 300 0 0,
                          velocity = Vector3 1 0 0, acceleration = Vector3 0 0 0,
                          isNearMouse = False\<rparr> True)) = - 300"
proof -
  let ?b = "\<lparr>homePosition = Vector3 0 0 0, position = Vector3 300 0 0,
             velocity = Vector3 1 0 0, acceleration = Vector3 0 0 0, isNearMouse = False\<rparr>"
  have h: "vx (position ?b) = boundarySize \<and> 0 < vx (velocity ?b) + vx (acceleration ?b)"
    by (simp add: boundarySize_def)
  from wrap_teleports [of "Vector3 0 0 0" ?b True]
  have "vx (position ?b) = boundarySize \<and> 0 < vx (velocity ?b) + vx (acceleration ?b) \<longrightarrow>
      vx (position (update ?b True)) = - boundarySize"
    by (elim conjE)
  with h have "vx (position (update ?b True)) = - boundarySize"
    by (rule rev_mp)
  with h show ?thesis
    by (simp add: boundarySize_def)
qed

subsection \<open>C9: an agent without neighbours\<close>

text \<open>
  Claim C9. If no other agent of the array is at a distance from the agent that is
  strictly positive and below the radius of a behaviour, that behaviour returns the zero
  vector. The count each loop returns is the number of such agents, and the methods divide
  by the count only when it is positive; the separation loop divides by a distance only
  after testing it positive.
\<close>

theorem isolated_steering_zero:
  "(isolated this i bs separationRadius \<longrightarrow> separation this i bs = zero3) \<and>
   (isolated this i bs alignmentRadius \<longrightarrow> alignment this i bs = zero3) \<and>
   (isolated this i bs cohesionRadius \<longrightarrow> cohesion this i bs = zero3) \<and>
   snd (separation_loop this i 0 bs zero3 0) =
     length (filter (\<lambda>(k, other). k \<noteq> i \<and> neighbour this separationRadius other)
               (enumerate 0 bs)) \<and>
   snd (alignment_loop this i 0 bs zero3 0) =
     length (filter (\<lambda>(k, other). k \<noteq> i \<and> neighbour this alignmentRadius other)
               (enumerate 0 bs)) \<and>
   snd (cohesion_loop this i 0 bs zero3 0) =
     length (filter (\<lambda>(k, other). k \<noteq> i \<and> neighbour this cohesionRadius other)
               (enumerate 0 bs))"
proof (intro conjI impI)
  assume "isolated this i bs separationRadius"
  then have "separation_loop this i 0 bs zero3 0 = (zero3, 0)"
    unfolding isolated_def by (rule separation_loop_isolated)
  then show "separation this i bs = zero3"
    by (simp add: separation_def)
next
  assume "isolated this i bs alignmentRadius"
  then have "alignment_loop this i 0 bs zero3 0 = (zero3, 0)"
    unfolding isolated_def by (rule alignment_loop_isolated)
  then show "alignment this i bs = zero3"
    by (simp add: alignment_def)
next
  assume "isolated this i bs cohesionRadius"
  then have "cohesion_loop this i 0 bs zero3 0 = (zero3, 0)"
    unfolding isolated_def by (rule cohesion_loop_isolated)
  then show "cohesion this i bs = zero3"
    by (simp add: cohesion_def)
qed (simp_all add: separation_loop_counts alignment_loop_counts cohesion_loop_counts)

text \<open>C9 at a concrete swarm of two agents at distance 100.\<close>

theorem isolated_steering_zero_witness:
  "isolated
     \<lparr>homePosition = Vector3 0 0 0, position = Vector3 0 0 0, velocity = Vector3 1 0 0,
      acceleration = Vector3 0 0 0, isNearMouse = False\<rparr> 0
     [\<lparr>homePosition = Vector3 0 0 0, position = Vector3 0 0 0, velocity = Vector3 1 0 0,
       acceleration = Vector3 0 0 0, isNearMouse = False\<rparr>,
      \<lparr>homePosition = Vector3 100 0 0, position = Vector3 100 0 0, velocity = Vector3 0 1 0,
       acceleration = Vector3 0 0 0, isNearMouse = False\<rparr>] separationRadius \<and>
   isolated
     \<lparr>homePosition = Vector3 0 0 0, position = Vector3 0 0 0, velocity = Vector3 1 0 0,
      acceleration = Vector3 0 0 0, isNearMouse = False\<rparr> 0
     [\<lparr>homePosition = Vector3 0 0 0, position = Vector3 0 0 0, velocity = Vector3 1 0 0,
       acceleration = Vector3 0 0 0, isNearMouse = False\<rparr>,
      \<lparr>homePosition = Vector3 100 0 0, position = Vector3 100 0 0, velocity = Vector3 0 1 0,
       acceleration = Vector3 0 0 0, isNearMouse = False\<rparr>] alignmentRadius \<and>
   isolated
     \<lparr>homePosition = Vector3 0 0 0, position = Vector3 0 0 0, velocity = Vector3 1 0 0,
      acceleration = Vector3 0 0 0, isNearMouse = False\<rparr> 0
     [\<lparr>homePosition = Vector3 0 0 0, position = Vector3 0 0 0, velocity = Vector3 1 0 0,
       acceleration = Vector3 0 0 0, isNearMouse = False\<rparr>,
      \<lparr>homePosition = Vector3 100 0 0, position = Vector3 100 0 0, velocity = Vector3 0 1 0,
       acceleration = Vector3 0 0 0, isNearMouse = False\<rparr>] cohesionRadius \<and>
   separation
     \<lparr>homePosition = Vector3 0 0 0, position = Vector3 0 0 0, velocity = Vector3 1 0 0,
      acceleration = Vector3 0 0 0, isNearMouse = False\<rparr> 0
     [\<lparr>homePosition = Vector3 0 0 0, position = Vector3 0 0 0, velocity = Vector3 1 0 0,
       acceleration = Vector3 0 0 0, isNearMouse = False\<rparr>,
      \<lparr>homePosition = Vector3 100 0 0, position = Vector3 100 0 0, velocity = Vector3 0 1 0,
       acceleration = Vector3 0 0 0, isNearMouse = False\<rparr>] = Vector3 0 0 0 \<and>
   alignment
     \<lparr>homePosition = Vector3 0 0 0, position = Vector3 0 0 0, velocity = Vector3 1 0 0,
      acceleration = Vector3 0 0 0, isNearMouse = False\<rparr> 0
     [\<lparr>homePosition = Vector3 0 0 0, position = Vector3 0 0 0, velocity = Vector3 1 0 0,
       acceleration = Vector3 0 0 0, isNearMouse = False\<rparr>,
      \<lparr>homePosition = Vector3 100 0 0, position = Vector3 100 0 0, velocity = Vector3 0 1 0,
       acceleration = Vector3 0 0 0, isNearMouse = False\<rparr>] = Vector3 0 0 0 \<and>
   cohesion
     \<lparr>homePosition = Vector3 0 0 0, position = Vector3 0 0 0, velocity = Vector3 1 0 0,
      acceleration = Vector3 0 0 0, isNearMouse = False\<rparr> 0
     [\<lparr>homePosition = Vector3 0 0 0, position = Vector3 0 0 0, velocity = Vector3 1 0 0,
       acceleration = Vector3 0 0 0, isNearMouse = False\<rparr>,
      \<lparr>homePosition = Vector3 100 0 0, position = Vector3 100 0 0, velocity = Vector3 0 1 0,
       acceleration = Vector3 0 0 0, isNearMouse = False\<rparr>] = Vector3 0 0 0"
proof -
  let ?a = "\<lparr>homePosition = Vector3 0 0 0, position = Vector3 0 0 0, velocity = Vector3 1 0 0,
      acceleration = Vector3 0 0 0, isNearMouse = False\<rparr>"
  let ?b = "\<lparr>homePosition = Vector3 100 0 0, position = Vector3 100 0 0, velocity = Vector3 0 1 0,
       acceleration = Vector3 0 0 0, isNearMouse = False\<rparr>"
  have d: "distanceTo (Vector3 0 0 0) (Vector3 100 0 0) = 100"
    by (simp add: distanceTo_subVectors subVectors_def length3_x_axis)
  have i: "isolated ?a 0 [?a, ?b] separationRadius" "isolated ?a 0 [?a, ?b] alignmentRadius"
    "isolated ?a 0 [?a, ?b] cohesionRadius"
    by (simp_all add: isolated_def neighbour_def d separationRadius_def alignmentRadius_def
        cohesionRadius_def)
  from isolated_steering_zero [of ?a 0 "[?a, ?b]"] i show ?thesis
    by (simp add: zero3_def)
qed

subsection \<open>C10: what the steering methods overwrite\<close>

text \<open>
  Claim C10, on the object store. \<^verbatim>\<open>separation\<close>, \<^verbatim>\<open>alignment\<close>, \<^verbatim>\<open>cohesion\<close>,
  \<^verbatim>\<open>seek\<close> and \<^verbatim>\<open>seekHome\<close> leave the array of agents and every vector that existed
  before the call as they were: all their writes go to vectors they allocate.
  \<^verbatim>\<open>mouseRepel\<close> leaves the existing vectors as they were and changes the array at most
  by setting the flag of the acting agent. Read through the references of the agents, in a
  store where these point to allocated vectors: the first five leave the position,
  velocity, acceleration, home position and flag of every agent unchanged, and
  \<^verbatim>\<open>mouseRepel\<close> changes at most \<^verbatim>\<open>isNearMouse\<close> of the acting agent, to true.
\<close>

theorem steering_side_effects:
  "take (length (vectors m)) (vectors (snd (separation_m i m))) = vectors m \<and>
   objects (snd (separation_m i m)) = objects m \<and>
   take (length (vectors m)) (vectors (snd (alignment_m i m))) = vectors m \<and>
   objects (snd (alignment_m i m)) = objects m \<and>
   take (length (vectors m)) (vectors (snd (cohesion_m i m))) = vectors m \<and>
   objects (snd (cohesion_m i m)) = objects m \<and>
   take (length (vectors m)) (vectors (snd (seek_m i target m))) = vectors m \<and>
   objects (snd (seek_m i target m)) = objects m \<and>
   take (length (vectors m)) (vectors (snd (seekHome_m i m))) = vectors m \<and>
   objects (snd (seekHome_m i m)) = objects m \<and>
   take (length (vectors m)) (vectors (snd (mouseRepel_m i mp m))) = vectors m \<and>
   (objects (snd (mouseRepel_m i mp m)) = objects m \<or>
    objects (snd (mouseRepel_m i mp m)) =
      (objects m)[i := (objects m ! i)\<lparr>isNearMouse_flag := True\<rparr>]) \<and>
   (allocated m \<longrightarrow>
      swarm_of (snd (separation_m i m)) = swarm_of m \<and>
      swarm_of (snd (alignment_m i m)) = swarm_of m \<and>
      swarm_of (snd (cohesion_m i m)) = swarm_of m \<and>
      swarm_of (snd (seek_m i target m)) = swarm_of m \<and>
      swarm_of (snd (seekHome_m i m)) = swarm_of m \<and>
      (swarm_of (snd (mouseRepel_m i mp m)) = swarm_of m \<or>
       swarm_of (snd (mouseRepel_m i mp m)) =
         (swarm_of m)[i := (swarm_of m ! i)\<lparr>isNearMouse := True\<rparr>]))"
proof -
  let ?n = "length (vectors m)"
  have sep: "extends ?n m (snd (separation_m i m))"
    by (rule extends_snd) (rule separation_m_extends)
  have ali: "extends ?n m (snd (alignment_m i m))"
    by (rule extends_snd) (rule alignment_m_extends)
  have coh: "extends ?n m (snd (cohesion_m i m))"
    by (rule extends_snd) (rule cohesion_m_extends)
  have sk: "extends ?n m (snd (seek_m i target m))"
    by (rule extends_snd) (rule seek_m_extends)
  have sh: "extends ?n m (snd (seekHome_m i m))"
    by (rule extends_snd) (rule seekHome_m_extends)
  obtain r m' where run: "mouseRepel_m i mp m = (r, m')"
    by (cases "mouseRepel_m i mp m")
  have mr: "take ?n (vectors (snd (mouseRepel_m i mp m))) = vectors m"
    "objects (snd (mouseRepel_m i mp m)) = objects m \<or>
     objects (snd (mouseRepel_m i mp m)) =
       (objects m)[i := (objects m ! i)\<lparr>isNearMouse_flag := True\<rparr>]"
    using mouseRepel_m_frame(1,3) [OF run] by (simp_all add: run)
  have sw: "allocated m \<longrightarrow>
      swarm_of (snd (separation_m i m)) = swarm_of m \<and>
      swarm_of (snd (alignment_m i m)) = swarm_of m \<and>
      swarm_of (snd (cohesion_m i m)) = swarm_of m \<and>
      swarm_of (snd (seek_m i target m)) = swarm_of m \<and>
      swarm_of (snd (seekHome_m i m)) = swarm_of m \<and>
      (swarm_of (snd (mouseRepel_m i mp m)) = swarm_of m \<or>
       swarm_of (snd (mouseRepel_m i mp m)) =
         (swarm_of m)[i := (swarm_of m ! i)\<lparr>isNearMouse := True\<rparr>])"
    using sep ali coh sk sh by (simp add: swarm_of_extends swarm_of_mouseRepel_m)
  from extends_frame [OF sep] extends_frame [OF ali] extends_frame [OF coh] extends_frame [OF sk]
    extends_frame [OF sh] mr sw
  show ?thesis
    by (intro conjI) simp_all
qed

text \<open>C10 at a concrete store holding one agent.\<close>

theorem steering_side_effects_witness:
  "allocated
     \<lparr>vectors = [Vector3 0 0 0, Vector3 1 0 0, Vector3 0 1 0, Vector3 0 0 0],
      objects = [\<lparr>homePosition_at = 0, position_at = 1, velocity_at = 2, acceleration_at = 3,
                  isNearMouse_flag = False\<rparr>]\<rparr> \<and>
   swarm_of (snd (separation_m 0
     \<lparr>vectors = [Vector3 0 0 0, Vector3 1 0 0, Vector3 0 1 0, Vector3 0 0 0],
      objects = [\<lparr>homePosition_at = 0, position_at = 1, velocity_at = 2, acceleration_at = 3,
                  isNearMouse_flag = False\<rparr>]\<rparr>)) =
     [\<lparr>homePosition = Vector3 0 0 0, position = Vector3 1 0 0, velocity = Vector3 0 1 0,
       acceleration = Vector3 0 0 0, isNearMouse = False\<rparr>]"
proof -
  let ?m = "\<lparr>vectors = [Vector3 0 0 0, Vector3 1 0 0, Vector3 0 1 0, Vector3 0 0 0],
      objects = [\<lparr>homePosition_at = 0, position_at = 1, velocity_at = 2, acceleration_at = 3,
                  isNearMouse_flag = False\<rparr>]\<rparr>"
  have a: "allocated ?m"
    by (simp add: allocated_def)
  have s: "swarm_of ?m = [\<lparr>homePosition = Vector3 0 0 0, position = Vector3 1 0 0,
       velocity = Vector3 0 1 0, acceleration = Vector3 0 0 0, isNearMouse = False\<rparr>]"
    by (simp add: swarm_of_def boid_of_def load_def)
  from steering_side_effects [of ?m 0] a
  have "swarm_of (snd (separation_m 0 ?m)) = swarm_of ?m"
    by blast
  with a s show ?thesis
    by simp
qed

end
